theory Spec2Isabelle
  imports Main "HOL-Library.Sublist"
begin

section \<open>Site mapper (load_site_mapping, get_netbox_site_name)\<close>

text \<open>
  The configuration is the dictionary that \<^verbatim>\<open>load_config\<close> reads from
  \<^verbatim>\<open>config.yaml\<close>. The site mapper reads two keys of its \<^verbatim>\<open>UNIFI\<close> section:
  \<^verbatim>\<open>SITE_MAPPINGS\<close> (a dictionary, or absent/null) and \<^verbatim>\<open>USE_SITE_MAPPING\<close> (a flag,
  or absent). \<open>None\<close> stands for a key that is absent (for \<^verbatim>\<open>SITE_MAPPINGS\<close> also for
  a null value, which the source treats the same way: \<^verbatim>\<open>if config_mappings:\<close>).
\<close>

record unifi_section =
  SITE_MAPPINGS :: "(string \<rightharpoonup> string) option"
  USE_SITE_MAPPING :: "bool option"

record config =
  UNIFI :: "unifi_section option"

text \<open>
  The file \<^verbatim>\<open>config/site_mapping.yaml\<close>: what \<^verbatim>\<open>yaml.safe_load(f) or {}\<close> followed by
  \<^verbatim>\<open>len\<close> and \<^verbatim>\<open>.items()\<close> makes of it. Either the content is a mapping (its items in
  order; an empty file is the empty mapping), or reading it raises inside the
  \<^verbatim>\<open>try\<close> block (unreadable file, YAML error, content that is not a mapping).

  The file system holds the file or not (\<open>mapping_file\<close>, what \<^verbatim>\<open>os.path.exists\<close>
  tests), and it lets the program create the \<^verbatim>\<open>config\<close> directory and the file in
  it or not (\<open>creatable\<close>): \<^verbatim>\<open>os.makedirs\<close> and \<^verbatim>\<open>open(site_mapping_path, 'w')\<close> raise
  an \<^verbatim>\<open>OSError\<close> on a read-only or full file system, or without the permission to
  write there.
\<close>

datatype yaml_file = YamlMapping "(string \<times> string) list" | YamlUnreadable

record file_system =
  mapping_file :: "yaml_file option"
  creatable :: bool

datatype os_error = OSError

text \<open>The default file the source writes when the mapping file does not exist
  (two comment lines and the entry \<^verbatim>\<open>"Default": "Default"\<close>).\<close>

definition default_site_mapping_file :: yaml_file where
  "default_site_mapping_file = YamlMapping [(''Default'', ''Default'')]"

text \<open>Lines 76 to 82 of the source, which stand before the \<^verbatim>\<open>try\<close> block: an error of
  creating the file is not caught and leaves \<^verbatim>\<open>load_site_mapping\<close>.\<close>

definition create_default_file :: "file_system \<Rightarrow> os_error + file_system" where
  "create_default_file fs =
     (case mapping_file fs of
        Some f \<Rightarrow> Inr fs
      | None \<Rightarrow>
          if creatable fs then Inr (fs\<lparr>mapping_file := Some default_site_mapping_file\<rparr>)
          else Inl OSError)"

text \<open>The loop \<^verbatim>\<open>for key, value in file_mapping.items(): if key not in site_mapping:
  site_mapping[key] = value\<close>.\<close>

fun fill_from_file :: "(string \<times> string) list \<Rightarrow> (string \<rightharpoonup> string) \<Rightarrow> (string \<rightharpoonup> string)" where
  "fill_from_file [] site_mapping = site_mapping"
| "fill_from_file ((key, val) # items) site_mapping =
     fill_from_file items
       (if site_mapping key = None then site_mapping(key \<mapsto> val) else site_mapping)"

text \<open>The result is the exception that leaves the function (\<open>Inl\<close>), or the mapping
  together with the file system as the call leaves it (\<open>Inr\<close>). Whatever is raised
  while the file is read is caught by the \<^verbatim>\<open>except Exception\<close> of line 92, and the
  mapping built so far is returned.\<close>

definition load_site_mapping ::
  "config option \<Rightarrow> file_system \<Rightarrow> os_error + ((string \<rightharpoonup> string) \<times> file_system)" where
  "load_site_mapping cfg fs =
     (let site_mapping =
            (case cfg of
               None \<Rightarrow> Map.empty
             | Some c \<Rightarrow>
                 (case UNIFI c of
                    None \<Rightarrow> Map.empty
                  | Some u \<Rightarrow>
                      (case SITE_MAPPINGS u of
                         None \<Rightarrow> Map.empty
                       | Some config_mappings \<Rightarrow> Map.empty ++ config_mappings)));
          use_file_mapping =
            (case cfg of
               None \<Rightarrow> False
             | Some c \<Rightarrow>
                 (case UNIFI c of
                    None \<Rightarrow> False
                  | Some u \<Rightarrow> (case USE_SITE_MAPPING u of None \<Rightarrow> False | Some b \<Rightarrow> b)))
      in if use_file_mapping then
           (case create_default_file fs of
              Inl e \<Rightarrow> Inl e
            | Inr fs' \<Rightarrow>
                (case mapping_file fs' of
                   Some (YamlMapping file_mapping) \<Rightarrow>
                     Inr (fill_from_file file_mapping site_mapping, fs')
                 | Some YamlUnreadable \<Rightarrow> Inr (site_mapping, fs')
                 | None \<Rightarrow> Inr (site_mapping, fs')))
         else Inr (site_mapping, fs))"

definition get_netbox_site_name ::
  "string \<Rightarrow> config option \<Rightarrow> file_system \<Rightarrow> os_error + (string \<times> file_system)" where
  "get_netbox_site_name unifi_site_name cfg fs =
     (case load_site_mapping cfg fs of
        Inl e \<Rightarrow> Inl e
      | Inr (site_mapping, fs') \<Rightarrow>
          Inr (case site_mapping unifi_site_name of
                 None \<Rightarrow> unifi_site_name
               | Some mapped_name \<Rightarrow> mapped_name, fs'))"

text \<open>The two mapping sources, as the claims speak of them: the inline entries of
  the configuration, and the entries of the mapping file when it exists and can be
  read as a mapping.\<close>

definition config_entries :: "config option \<Rightarrow> (string \<rightharpoonup> string)" where
  "config_entries cfg =
     (case cfg of
        None \<Rightarrow> Map.empty
      | Some c \<Rightarrow>
          (case UNIFI c of
             None \<Rightarrow> Map.empty
           | Some u \<Rightarrow> (case SITE_MAPPINGS u of None \<Rightarrow> Map.empty | Some m \<Rightarrow> m)))"

definition file_enabled :: "config option \<Rightarrow> bool" where
  "file_enabled cfg =
     (case cfg of
        None \<Rightarrow> False
      | Some c \<Rightarrow>
          (case UNIFI c of
             None \<Rightarrow> False
           | Some u \<Rightarrow> USE_SITE_MAPPING u = Some True))"

definition file_entries :: "file_system \<Rightarrow> (string \<rightharpoonup> string)" where
  "file_entries fs =
     (case mapping_file fs of
        None \<Rightarrow> Map.empty
      | Some YamlUnreadable \<Rightarrow> Map.empty
      | Some (YamlMapping items) \<Rightarrow> map_of items)"


text \<open>The merge of the two sources: the configuration first, the file for the rest.\<close>

definition merged :: "config option \<Rightarrow> file_system \<Rightarrow> (string \<rightharpoonup> string)" where
  "merged cfg fs k =
     (case config_entries cfg k of
        Some v \<Rightarrow> Some v
      | None \<Rightarrow> if file_enabled cfg then file_entries fs k else None)"

lemma fill_from_file_lookup:
  "fill_from_file items m k = (case m k of Some v \<Rightarrow> Some v | None \<Rightarrow> map_of items k)"
  by (induction items m rule: fill_from_file.induct) (auto split: option.splits)

lemma load_site_mapping_existing_file:
  assumes "mapping_file fs \<noteq> None"
  shows "load_site_mapping cfg fs = Inr (merged cfg fs, fs)"
  using assms
  by (auto simp: load_site_mapping_def create_default_file_def config_entries_def
        file_enabled_def file_entries_def fill_from_file_lookup Let_def merged_def fun_eq_iff
      split: option.splits yaml_file.splits)




text \<open>
  Claim C3. A controller site name that has an entry in the inline configuration
  mapping and in the mapping file is mapped by \<open>load_site_mapping\<close> to the value of
  the configuration, and \<open>get_netbox_site_name\<close> resolves it to that value; neither
  call fails, and the file system is left as it was. An entry of the result for a key
  is the configuration's when the configuration has the key; the file supplies the
  entry only for keys the configuration lacks, and only when the file mapping is
  enabled.
\<close>

theorem load_site_mapping_config_wins:
  assumes "config_entries cfg k = Some v" and "file_entries fs k = Some w"
  shows "\<exists>m. load_site_mapping cfg fs = Inr (m, fs) \<and>
             m k = Some v \<and>
             get_netbox_site_name k cfg fs = Inr (v, fs) \<and>
             (\<forall>k'. m k' =
                (case config_entries cfg k' of
                   Some v' \<Rightarrow> Some v'
                 | None \<Rightarrow> if file_enabled cfg then file_entries fs k' else None))"
proof -
  from assms(2) have "mapping_file fs \<noteq> None"
    by (auto simp: file_entries_def split: option.splits)
  then have l: "load_site_mapping cfg fs = Inr (merged cfg fs, fs)"
    by (rule load_site_mapping_existing_file)
  from assms(1) have m: "merged cfg fs k = Some v"
    by (simp add: merged_def)
  from l m have "get_netbox_site_name k cfg fs = Inr (v, fs)"
    by (simp add: get_netbox_site_name_def)
  with l m show ?thesis
    by (simp add: merged_def)
qed

theorem load_site_mapping_config_wins_witness:
  "(\<exists>m. load_site_mapping
          (Some \<lparr>UNIFI = Some \<lparr>SITE_MAPPINGS = Some [''HQ'' \<mapsto> ''Head Office''],
                                USE_SITE_MAPPING = Some True\<rparr>\<rparr>)
          \<lparr>mapping_file = Some (YamlMapping [(''HQ'', ''Elsewhere''), (''Lab'', ''Laboratory'')]),
           creatable = False\<rparr>
        = Inr (m, \<lparr>mapping_file =
                     Some (YamlMapping [(''HQ'', ''Elsewhere''), (''Lab'', ''Laboratory'')]),
                   creatable = False\<rparr>) \<and>
        m ''HQ'' = Some ''Head Office'') \<and>
   get_netbox_site_name ''HQ''
          (Some \<lparr>UNIFI = Some \<lparr>SITE_MAPPINGS = Some [''HQ'' \<mapsto> ''Head Office''],
                                USE_SITE_MAPPING = Some True\<rparr>\<rparr>)
          \<lparr>mapping_file = Some (YamlMapping [(''HQ'', ''Elsewhere''), (''Lab'', ''Laboratory'')]),
           creatable = False\<rparr>
     = Inr (''Head Office'',
            \<lparr>mapping_file = Some (YamlMapping [(''HQ'', ''Elsewhere''), (''Lab'', ''Laboratory'')]),
             creatable = False\<rparr>)"
  using load_site_mapping_config_wins
          [of "Some \<lparr>UNIFI = Some \<lparr>SITE_MAPPINGS = Some [''HQ'' \<mapsto> ''Head Office''],
                                     USE_SITE_MAPPING = Some True\<rparr>\<rparr>"
              "''HQ''" "''Head Office''"
              "\<lparr>mapping_file =
                  Some (YamlMapping [(''HQ'', ''Elsewhere''), (''Lab'', ''Laboratory'')]),
                creatable = False\<rparr>"
              "''Elsewhere''"]
  by (auto simp: config_entries_def file_entries_def)





section \<open>Log-derived audit extractor (parse_successful_log_entries)\<close>

text \<open>
  Strings are lists of 8-bit characters. \<^verbatim>\<open>open(log_file, "r")\<close> reads the file in text
  mode with universal newlines: a carriage return followed by a line feed, and a
  carriage return alone, are both read as one newline. \<^verbatim>\<open>for line in file\<close> then yields
  the lines with their terminating newline (the last line may lack one).
\<close>

definition newline :: char where
  "newline = CHR 0x0A"

definition carriage_return :: char where
  "carriage_return = CHR 0x0D"

fun universal_newlines :: "string \<Rightarrow> string" where
  "universal_newlines [] = []"
| "universal_newlines [c] = (if c = carriage_return then [newline] else [c])"
| "universal_newlines (c # d # cs) =
     (if c = carriage_return then
        (if d = newline then newline # universal_newlines cs
         else newline # universal_newlines (d # cs))
      else c # universal_newlines (d # cs))"

fun lines_of :: "string \<Rightarrow> string list" where
  "lines_of [] = []"
| "lines_of (c # cs) =
     (if c = newline then [c] # lines_of cs
      else (case lines_of cs of [] \<Rightarrow> [[c]] | l # ls \<Rightarrow> (c # l) # ls))"

text \<open>\<^verbatim>\<open>line.split(sep, 1)[1]\<close> under the guard \<^verbatim>\<open>sep in line\<close>: what follows the
  first occurrence of \<open>sep\<close>, and \<open>None\<close> when \<open>sep\<close> does not occur.\<close>

fun after_first :: "string \<Rightarrow> string \<Rightarrow> string option" where
  "after_first sep [] = (if sep = [] then Some [] else None)"
| "after_first sep (c # cs) =
     (if prefix sep (c # cs) then Some (drop (length sep) (c # cs)) else after_first sep cs)"

text \<open>The regular expressions. \<^verbatim>\<open>\d\<close> is a decimal digit, \<^verbatim>\<open>.\<close> any character but
  the newline. Both quantifiers are greedy and backtrack: they try the longest
  repetition first and give characters back until the rest of the pattern matches.
  \<open>digits_plus k\<close> is \<^verbatim>\<open>(\d+)\<close> followed by a rest of the pattern that \<open>k\<close> tests; it
  returns the group. \<open>dot_star k\<close> is \<^verbatim>\<open>.*\<close> followed by the rest \<open>k\<close>.\<close>

definition is_digit :: "char \<Rightarrow> bool" where
  "is_digit c = (of_char CHR ''0'' \<le> (of_char c :: nat) \<and> (of_char c :: nat) \<le> of_char CHR ''9'')"

fun digits_plus :: "(string \<Rightarrow> bool) \<Rightarrow> string \<Rightarrow> string option" where
  "digits_plus k [] = None"
| "digits_plus k (c # cs) =
     (if is_digit c then
        (case digits_plus k cs of
           Some ds \<Rightarrow> Some (c # ds)
         | None \<Rightarrow> if k cs then Some [c] else None)
      else None)"

fun dot_star :: "(string \<Rightarrow> 'a option) \<Rightarrow> string \<Rightarrow> 'a option" where
  "dot_star k [] = k []"
| "dot_star k (c # cs) =
     (if c = newline then k (c # cs)
      else (case dot_star k cs of Some r \<Rightarrow> Some r | None \<Rightarrow> k (c # cs)))"

text \<open>\<^verbatim>\<open> with ID (\d+) successfully added to NetBox\<close>, matched at the start of a string.\<close>

definition with_id_tail :: "string \<Rightarrow> string option" where
  "with_id_tail s =
     (if prefix '' with ID '' s
      then digits_plus (prefix '' successfully added to NetBox'') (drop (length '' with ID '') s)
      else None)"

text \<open>\<^verbatim>\<open>re.compile(r"^<keyword>.* with ID (\d+) successfully added to NetBox").match(s)\<close>:
  \<open>None\<close> when there is no match, the text of group 1 otherwise.\<close>

definition id_pattern :: "string \<Rightarrow> string \<Rightarrow> string option" where
  "id_pattern keyword s =
     (if prefix keyword s then dot_star with_id_tail (drop (length keyword) s) else None)"

definition id_pattern_device :: "string \<Rightarrow> string option" where
  "id_pattern_device = id_pattern ''Device ''"

definition id_pattern_ip :: "string \<Rightarrow> string option" where
  "id_pattern_ip = id_pattern ''IP address ''"

text \<open>\<^verbatim>\<open>int(match.group(1))\<close> on a string of decimal digits.\<close>

definition digit_val :: "char \<Rightarrow> int" where
  "digit_val c = int (of_char c) - int (of_char CHR ''0'')"

definition int_of_digits :: "string \<Rightarrow> int" where
  "int_of_digits ds = foldl (\<lambda>n c. 10 * n + digit_val c) 0 ds"

text \<open>The result dictionary, with its two keys \<^verbatim>\<open>"device"\<close> and \<^verbatim>\<open>"ip address"\<close>.\<close>

record audit_result =
  device_ids :: "int list"
  ip_address_ids :: "int list"

text \<open>The body of the loop over the lines.\<close>

definition scan_line :: "audit_result \<Rightarrow> string \<Rightarrow> audit_result" where
  "scan_line result line =
     (case after_first ''INFO - '' line of
        None \<Rightarrow> result
      | Some log_content \<Rightarrow>
          (case id_pattern_device log_content of
             Some g \<Rightarrow> result\<lparr>device_ids := device_ids result @ [int_of_digits g]\<rparr>
           | None \<Rightarrow>
               (case id_pattern_ip log_content of
                  Some g \<Rightarrow> result\<lparr>ip_address_ids := ip_address_ids result @ [int_of_digits g]\<rparr>
                | None \<Rightarrow> result)))"

text \<open>\<open>None\<close> as the file stands for a path that cannot be opened: \<^verbatim>\<open>open\<close> raises and
  the function returns nothing.\<close>

definition parse_successful_log_entries :: "string option \<Rightarrow> audit_result option" where
  "parse_successful_log_entries log_file =
     (case log_file of
        None \<Rightarrow> None
      | Some content \<Rightarrow>
          Some (foldl scan_line \<lparr>device_ids = [], ip_address_ids = []\<rparr>
                  (lines_of (universal_newlines content))))"

text \<open>The lines the extractor is specified to collect, in the words of the
  specification: the informational lines that follow the literal pattern
  \<^verbatim>\<open><Entity> ... with ID <N> successfully added to NetBox\<close>, where the text of the
  entry starts after the first \<^verbatim>\<open>INFO - \<close> of the line, \<^verbatim>\<open>...\<close> stays on the line and
  \<^verbatim>\<open><N>\<close> is a number in decimal digits. \<open>success_line\<close> is this specification and
  not a part of the program; the properties below compare the program with it. A
  non-matching line is one that follows the pattern for neither entity keyword.\<close>

definition success_line :: "string \<Rightarrow> string \<Rightarrow> bool" where
  "success_line entity line \<longleftrightarrow>
     (\<exists>ts x ds e.
        line = ts @ ''INFO - '' @ entity @ x @ '' with ID '' @ ds
                 @ '' successfully added to NetBox'' @ e \<and>
        \<not> sublist ''INFO - '' ts \<and> newline \<notin> set x \<and>
        ds \<noteq> [] \<and> (\<forall>c\<in>set ds. is_digit c))"

definition non_matching :: "string \<Rightarrow> bool" where
  "non_matching line \<longleftrightarrow>
     \<not> success_line ''Device '' line \<and> \<not> success_line ''IP address '' line"







subsection \<open>Properties of the extractor\<close>


lemma after_first_sublist:
  "sep \<noteq> [] \<Longrightarrow> (after_first sep s \<noteq> None) = sublist sep s"
  by (induction s) (auto simp: sublist_Cons_right)

lemma info_border:
  assumes "\<not> prefix ''INFO - '' p" and "p \<noteq> []"
  shows "\<not> prefix ''INFO - '' (p @ ''INFO - '' @ rest)"
proof
  assume "prefix ''INFO - '' (p @ ''INFO - '' @ rest)"
  then have "prefix ''INFO - '' p \<or> (\<exists>us. ''INFO - '' = p @ us \<and> prefix us (''INFO - '' @ rest))"
    by (simp only: prefix_append)
  with assms obtain us where "''INFO - '' = p @ us" "prefix us (''INFO - '' @ rest)"
    by blast
  with assms show False
    by (auto simp: Cons_eq_append_conv)
qed

lemma after_first_skip:
  "\<not> prefix sep ((c # ts) @ r) \<Longrightarrow> after_first sep ((c # ts) @ r) = after_first sep (ts @ r)"
  by simp

lemma after_first_here: "after_first sep (sep @ r) = Some r"
  by (cases sep; cases r) simp_all

lemma after_first_info:
  "\<not> sublist ''INFO - '' ts \<Longrightarrow> after_first ''INFO - '' (ts @ ''INFO - '' @ rest) = Some rest"
proof (induction ts)
  case Nil
  show ?case using after_first_here[of "''INFO - ''" rest] by simp
next
  case (Cons c ts)
  then have np: "\<not> prefix ''INFO - '' (c # ts)" and ns: "\<not> sublist ''INFO - '' ts"
    by (auto simp: sublist_Cons_right)
  from np have "\<not> prefix ''INFO - '' ((c # ts) @ ''INFO - '' @ rest)"
    by (rule info_border) simp
  then have "after_first ''INFO - '' ((c # ts) @ ''INFO - '' @ rest)
             = after_first ''INFO - '' (ts @ ''INFO - '' @ rest)"
    by (rule after_first_skip)
  with Cons.IH[OF ns] show ?case by simp
qed

lemma dot_star_skip:
  "newline \<notin> set x \<Longrightarrow> dot_star k r = Some v \<Longrightarrow> dot_star k (x @ r) = Some v"
  by (induction x) auto

lemma with_id_tail_nonspace:
  "c \<noteq> CHR '' '' \<Longrightarrow> with_id_tail (c # cs) = None"
  by (simp add: with_id_tail_def)

lemma with_id_tail_Nil: "with_id_tail [] = None"
  by (simp add: with_id_tail_def)

lemma dot_star_nonspace:
  "CHR '' '' \<notin> set p \<Longrightarrow> newline \<notin> set p \<Longrightarrow> dot_star with_id_tail (p @ r) = dot_star with_id_tail r"
  by (induction p) (auto simp: with_id_tail_nonspace split: option.splits)

lemma dot_star_no_space:
  "CHR '' '' \<notin> set e \<Longrightarrow> dot_star with_id_tail e = None"
  by (induction e) (auto simp: with_id_tail_nonspace with_id_tail_Nil)

lemma digits_plus_nondigit:
  "r = [] \<or> \<not> is_digit (hd r) \<Longrightarrow> digits_plus k r = None"
  by (cases r) auto

lemma digits_plus_run:
  "ds \<noteq> [] \<Longrightarrow> \<forall>c\<in>set ds. is_digit c \<Longrightarrow> k r \<Longrightarrow> r = [] \<or> \<not> is_digit (hd r) \<Longrightarrow>
   digits_plus k (ds @ r) = Some ds"
proof (induction ds)
  case Nil
  then show ?case by simp
next
  case (Cons d ds)
  show ?case
  proof (cases "ds = []")
    case True
    with Cons.prems show ?thesis by (simp add: digits_plus_nondigit)
  next
    case False
    with Cons have "digits_plus k (ds @ r) = Some ds" by simp
    with Cons.prems show ?thesis by simp
  qed
qed

lemma digit_not_space: "is_digit c \<Longrightarrow> c \<noteq> CHR '' '' \<and> c \<noteq> newline \<and> c \<noteq> CHR ''w''"
  by (auto simp: is_digit_def newline_def)



lemma not_prefix_hd: "R = [] \<or> hd R \<noteq> c \<Longrightarrow> \<not> prefix (c # cs) R"
  by (cases R) auto

lemma dot_star_with_id_prefix:
  assumes "dot_star with_id_tail R = None" and "R = [] \<or> hd R \<noteq> CHR ''w''"
  shows "dot_star with_id_tail ('' with ID '' @ R) = with_id_tail ('' with ID '' @ R)"
proof -
  have "\<not> prefix ''with ID '' R"
    using assms(2) by (rule not_prefix_hd)
  with assms(1) show ?thesis
    by (simp add: with_id_tail_def newline_def)
qed

lemma with_id_line:
  assumes "ds \<noteq> []" "\<forall>c\<in>set ds. is_digit c" "CHR '' '' \<notin> set e"
  shows "dot_star with_id_tail ('' with ID '' @ ds @ '' successfully added to NetBox'' @ e) = Some ds"
proof -
  have a: "dot_star with_id_tail ('' successfully added to NetBox'' @ e) = None"
    using dot_star_no_space[OF assms(3)]
    by (simp add: with_id_tail_def newline_def)
  have b: "dot_star with_id_tail (ds @ '' successfully added to NetBox'' @ e) = None"
    using assms(2) a by (subst dot_star_nonspace) (auto dest: digit_not_space)
  have h: "hd (ds @ '' successfully added to NetBox'' @ e) \<noteq> CHR ''w''"
    using assms(1,2) by (cases ds) (auto dest: digit_not_space)
  have c: "with_id_tail ('' with ID '' @ ds @ '' successfully added to NetBox'' @ e) = Some ds"
    using assms(1,2) by (simp add: with_id_tail_def digits_plus_run is_digit_def)
  show ?thesis
    using dot_star_with_id_prefix[OF b] h c by simp
qed

lemma id_pattern_matches:
  assumes "newline \<notin> set x" "ds \<noteq> []" "\<forall>c\<in>set ds. is_digit c" "CHR '' '' \<notin> set e"
  shows "id_pattern kw (kw @ x @ '' with ID '' @ ds @ '' successfully added to NetBox'' @ e) = Some ds"
  unfolding id_pattern_def
  using dot_star_skip[OF assms(1) with_id_line[OF assms(2,3,4)]] by simp

lemma id_pattern_other_keyword:
  "\<not> prefix kw s \<Longrightarrow> id_pattern kw s = None"
  by (simp add: id_pattern_def)

lemma lines_of_newline_free:
  "l \<in> set (lines_of c) \<Longrightarrow> newline \<notin> set (butlast l)"
proof (induction c arbitrary: l)
  case Nil
  then show ?case by simp
next
  case (Cons a c)
  then show ?case
    by (cases "lines_of c") (auto split: if_splits)
qed









lemma scan_line_device:
  assumes "\<not> sublist ''INFO - '' ts" "newline \<notin> set x" "ds \<noteq> []" "\<forall>c\<in>set ds. is_digit c"
    "CHR '' '' \<notin> set e"
  shows "scan_line result (ts @ ''INFO - Device '' @ x @ '' with ID '' @ ds @ '' successfully added to NetBox'' @ e)
         = result\<lparr>device_ids := device_ids result @ [int_of_digits ds]\<rparr>"
proof -
  have "after_first ''INFO - '' (ts @ ''INFO - '' @ (''Device '' @ x @ '' with ID '' @ ds @ '' successfully added to NetBox'' @ e))
        = Some (''Device '' @ x @ '' with ID '' @ ds @ '' successfully added to NetBox'' @ e)"
    using assms(1) by (rule after_first_info)
  moreover have "id_pattern_device (''Device '' @ x @ '' with ID '' @ ds @ '' successfully added to NetBox'' @ e) = Some ds"
    unfolding id_pattern_device_def using assms(2-5) by (rule id_pattern_matches)
  ultimately show ?thesis
    by (simp add: scan_line_def)
qed

lemma scan_line_ip:
  assumes "\<not> sublist ''INFO - '' ts" "newline \<notin> set x" "ds \<noteq> []" "\<forall>c\<in>set ds. is_digit c"
    "CHR '' '' \<notin> set e"
  shows "scan_line result (ts @ ''INFO - IP address '' @ x @ '' with ID '' @ ds @ '' successfully added to NetBox'' @ e)
         = result\<lparr>ip_address_ids := ip_address_ids result @ [int_of_digits ds]\<rparr>"
proof -
  have "after_first ''INFO - '' (ts @ ''INFO - '' @ (''IP address '' @ x @ '' with ID '' @ ds @ '' successfully added to NetBox'' @ e))
        = Some (''IP address '' @ x @ '' with ID '' @ ds @ '' successfully added to NetBox'' @ e)"
    using assms(1) by (rule after_first_info)
  moreover have "id_pattern_ip (''IP address '' @ x @ '' with ID '' @ ds @ '' successfully added to NetBox'' @ e) = Some ds"
    unfolding id_pattern_ip_def using assms(2-5) by (rule id_pattern_matches)
  moreover have "id_pattern_device (''IP address '' @ x @ '' with ID '' @ ds @ '' successfully added to NetBox'' @ e) = None"
    unfolding id_pattern_device_def by (rule id_pattern_other_keyword) simp
  ultimately show ?thesis
    by (simp add: scan_line_def)
qed

lemma line_part_newline_free:
  assumes "l \<in> set (lines_of content)" "l = a @ x @ b" "b \<noteq> []"
  shows "newline \<notin> set x"
proof -
  have "newline \<notin> set (butlast l)" using assms(1) by (rule lines_of_newline_free)
  with assms(2,3) show ?thesis by (simp add: butlast_append)
qed


text \<open>What the program's tests accept follows the specified pattern.\<close>

lemma after_first_decomp:
  "sep \<noteq> [] \<Longrightarrow> after_first sep l = Some rest \<Longrightarrow>
   \<exists>ts. l = ts @ sep @ rest \<and> \<not> sublist sep ts"
proof (induction l)
  case Nil
  then show ?case by simp
next
  case (Cons c cs)
  show ?case
  proof (cases "prefix sep (c # cs)")
    case True
    with Cons.prems have "c # cs = [] @ sep @ rest"
      by (auto simp: prefix_def)
    moreover have "\<not> sublist sep []"
      using Cons.prems(1) by simp
    ultimately show ?thesis by blast
  next
    case False
    with Cons.prems have "after_first sep cs = Some rest" by simp
    with Cons.IH Cons.prems(1) obtain ts where ts: "cs = ts @ sep @ rest" "\<not> sublist sep ts"
      by blast
    have "\<not> prefix sep (c # ts)"
    proof
      assume "prefix sep (c # ts)"
      then have "prefix sep ((c # ts) @ sep @ rest)"
        by (rule prefix_prefix)
      with False ts(1) show False by simp
    qed
    with ts(2) have "\<not> sublist sep (c # ts)"
      by (simp add: sublist_Cons_right)
    with ts(1) have "c # cs = (c # ts) @ sep @ rest \<and> \<not> sublist sep (c # ts)"
      by simp
    then show ?thesis by blast
  qed
qed

lemma digits_plus_sound:
  "digits_plus k s = Some ds \<Longrightarrow>
   ds \<noteq> [] \<and> (\<forall>c\<in>set ds. is_digit c) \<and> (\<exists>r. s = ds @ r \<and> k r)"
proof (induction s arbitrary: ds)
  case Nil
  then show ?case by simp
next
  case (Cons c cs)
  from Cons.prems have d: "is_digit c"
    by (simp split: if_splits)
  show ?case
  proof (cases "digits_plus k cs")
    case None
    with Cons.prems d have "ds = [c]" "k cs"
      by (simp_all split: if_splits)
    with d show ?thesis by simp
  next
    case (Some ds')
    with Cons.prems d have ds: "ds = c # ds'" by simp
    from Cons.IH[OF Some] obtain r where "\<forall>c\<in>set ds'. is_digit c" "cs = ds' @ r" "k r"
      by blast
    with d ds show ?thesis by simp
  qed
qed

lemma with_id_tail_sound:
  assumes "with_id_tail s = Some ds"
  shows "\<exists>e. s = '' with ID '' @ ds @ '' successfully added to NetBox'' @ e \<and>
             ds \<noteq> [] \<and> (\<forall>c\<in>set ds. is_digit c)"
proof -
  from assms have p: "prefix '' with ID '' s"
    and d: "digits_plus (prefix '' successfully added to NetBox'') (drop (length '' with ID '') s) = Some ds"
    by (simp_all add: with_id_tail_def split: if_splits)
  from p obtain s' where s': "s = '' with ID '' @ s'"
    by (auto simp: prefix_def)
  with d have "digits_plus (prefix '' successfully added to NetBox'') s' = Some ds"
    by simp
  from digits_plus_sound[OF this] obtain r where
    r: "ds \<noteq> []" "\<forall>c\<in>set ds. is_digit c" "s' = ds @ r" "prefix '' successfully added to NetBox'' r"
    by blast
  from r(4) obtain e where "r = '' successfully added to NetBox'' @ e"
    by (auto simp: prefix_def)
  with r s' have "s = '' with ID '' @ ds @ '' successfully added to NetBox'' @ e \<and>
             ds \<noteq> [] \<and> (\<forall>c\<in>set ds. is_digit c)"
    by simp
  then show ?thesis by blast
qed

lemma dot_star_sound:
  "dot_star k s = Some v \<Longrightarrow> \<exists>x r. s = x @ r \<and> newline \<notin> set x \<and> k r = Some v"
proof (induction s)
  case Nil
  then show ?case by simp
next
  case (Cons c cs)
  show ?case
  proof (cases "k (c # cs) = Some v")
    case True
    then have "c # cs = [] @ (c # cs) \<and> newline \<notin> set [] \<and> k (c # cs) = Some v"
      by simp
    then show ?thesis by blast
  next
    case False
    with Cons.prems have nl: "c \<noteq> newline" and "dot_star k cs = Some v"
      by (auto split: if_splits option.splits)
    with Cons.IH obtain x r where "cs = x @ r" "newline \<notin> set x" "k r = Some v"
      by blast
    with nl have "c # cs = (c # x) @ r \<and> newline \<notin> set (c # x) \<and> k r = Some v"
      by simp
    then show ?thesis by blast
  qed
qed

lemma id_pattern_sound:
  assumes "id_pattern kw s = Some ds"
  shows "\<exists>x e. s = kw @ x @ '' with ID '' @ ds @ '' successfully added to NetBox'' @ e \<and>
               newline \<notin> set x \<and> ds \<noteq> [] \<and> (\<forall>c\<in>set ds. is_digit c)"
proof -
  from assms have p: "prefix kw s"
    and d: "dot_star with_id_tail (drop (length kw) s) = Some ds"
    by (simp_all add: id_pattern_def split: if_splits)
  from p obtain s' where s': "s = kw @ s'"
    by (auto simp: prefix_def)
  with d have "dot_star with_id_tail s' = Some ds" by simp
  from dot_star_sound[OF this] obtain x r where
    x: "s' = x @ r" "newline \<notin> set x" "with_id_tail r = Some ds"
    by blast
  from with_id_tail_sound[OF x(3)] obtain e where
    e: "r = '' with ID '' @ ds @ '' successfully added to NetBox'' @ e"
       "ds \<noteq> []" "\<forall>c\<in>set ds. is_digit c"
    by blast
  from s' x(1,2) e have
    "s = kw @ x @ '' with ID '' @ ds @ '' successfully added to NetBox'' @ e \<and>
     newline \<notin> set x \<and> ds \<noteq> [] \<and> (\<forall>c\<in>set ds. is_digit c)"
    by simp
  then show ?thesis by blast
qed

lemma matched_line_follows_pattern:
  assumes "after_first ''INFO - '' l = Some log_content" and "id_pattern kw log_content = Some ds"
  shows "success_line kw l"
proof -
  from after_first_decomp[OF _ assms(1)] obtain ts where
    ts: "l = ts @ ''INFO - '' @ log_content" "\<not> sublist ''INFO - '' ts"
    by auto
  from id_pattern_sound[OF assms(2)] obtain x e where
    x: "log_content = kw @ x @ '' with ID '' @ ds @ '' successfully added to NetBox'' @ e"
       "newline \<notin> set x" "ds \<noteq> []" "\<forall>c\<in>set ds. is_digit c"
    by blast
  from ts x have
    "l = ts @ ''INFO - '' @ kw @ x @ '' with ID '' @ ds @ '' successfully added to NetBox'' @ e \<and>
     \<not> sublist ''INFO - '' ts \<and> newline \<notin> set x \<and> ds \<noteq> [] \<and> (\<forall>c\<in>set ds. is_digit c)"
    by simp
  then show ?thesis
    unfolding success_line_def by blast
qed

lemma scan_line_non_matching:
  assumes "non_matching l"
  shows "scan_line result l = result"
proof (cases "after_first ''INFO - '' l")
  case None
  then show ?thesis by (simp add: scan_line_def)
next
  case (Some log_content)
  have "id_pattern_device log_content = None"
  proof (cases "id_pattern_device log_content")
    case (Some ds)
    then have "success_line ''Device '' l"
      using matched_line_follows_pattern[OF \<open>after_first ''INFO - '' l = Some log_content\<close>]
      by (simp add: id_pattern_device_def)
    with assms show ?thesis by (simp add: non_matching_def)
  qed simp
  moreover have "id_pattern_ip log_content = None"
  proof (cases "id_pattern_ip log_content")
    case (Some ds)
    then have "success_line ''IP address '' l"
      using matched_line_follows_pattern[OF \<open>after_first ''INFO - '' l = Some log_content\<close>]
      by (simp add: id_pattern_ip_def)
    with assms show ?thesis by (simp add: non_matching_def)
  qed simp
  ultimately show ?thesis
    using Some by (simp add: scan_line_def)
qed

lemma foldl_scan_non_matching:
  "\<forall>l\<in>set ls. non_matching l \<Longrightarrow> foldl scan_line result ls = result"
  by (induction ls arbitrary: result) (simp_all add: scan_line_non_matching)

text \<open>A line in which neither \<^verbatim>\<open>INFO - Device \<close> nor \<^verbatim>\<open>INFO - IP address \<close> occurs is a
  non-matching line.\<close>

lemma success_line_keyword:
  assumes "success_line kw l"
  shows "sublist (''INFO - '' @ kw) l"
proof -
  from assms obtain ts rest where "l = ts @ (''INFO - '' @ kw) @ rest"
    unfolding success_line_def by auto
  then show ?thesis
    unfolding sublist_def by blast
qed

lemma non_matching_by_keyword:
  "\<not> sublist ''INFO - Device '' l \<Longrightarrow> \<not> sublist ''INFO - IP address '' l \<Longrightarrow> non_matching l"
  using success_line_keyword[of "''Device ''" l] success_line_keyword[of "''IP address ''" l]
  by (auto simp: non_matching_def)
















text \<open>
  Claim C7. Take a log file among whose lines there are, in either order, one line
  whose text after the first \<^verbatim>\<open>INFO - \<close> is
  \<^verbatim>\<open>Device X with ID 42 successfully added to NetBox\<close> and one whose text after the first
  \<^verbatim>\<open>INFO - \<close> is \<^verbatim>\<open>IP address Y with ID 7 successfully added to NetBox\<close> (each followed at
  most by characters other than the space, such as the full stop and the newline), and
  whose other lines are non-matching: they do not follow the pattern
  \<^verbatim>\<open><Entity> ... with ID <N> successfully added to NetBox\<close> for either entity keyword.
  Then \<open>parse_successful_log_entries\<close> returns exactly
  \<^verbatim>\<open>{"device": [42], "ip address": [7]}\<close>; and whatever the result so far, a non-matching
  line leaves it as it is.
\<close>

theorem audit_extraction:
  assumes lines: "lines_of (universal_newlines content) = before @ [la] @ between @ [lb] @ after"
    and order: "(la = l1 \<and> lb = l2) \<or> (la = l2 \<and> lb = l1)"
    and l1: "l1 = ts1 @ ''INFO - Device '' @ x @ '' with ID 42 successfully added to NetBox'' @ e1"
    and l2: "l2 = ts2 @ ''INFO - IP address '' @ y @ '' with ID 7 successfully added to NetBox'' @ e2"
    and ts: "\<not> sublist ''INFO - '' ts1" "\<not> sublist ''INFO - '' ts2"
    and e: "CHR '' '' \<notin> set e1" "CHR '' '' \<notin> set e2"
    and others: "\<forall>l\<in>set (before @ between @ after). non_matching l"
  shows "parse_successful_log_entries (Some content) = Some \<lparr>device_ids = [42], ip_address_ids = [7]\<rparr>
       \<and> (\<forall>result l. non_matching l \<longrightarrow> scan_line result l = result)"
proof -
  have "l1 \<in> set (lines_of (universal_newlines content))"
    "l2 \<in> set (lines_of (universal_newlines content))"
    using lines order by auto
  then have nx: "newline \<notin> set x" and ny: "newline \<notin> set y"
    using l1 l2
      line_part_newline_free[of l1 "universal_newlines content" "ts1 @ ''INFO - Device ''" x
        "'' with ID 42 successfully added to NetBox'' @ e1"]
      line_part_newline_free[of l2 "universal_newlines content" "ts2 @ ''INFO - IP address ''" y
        "'' with ID 7 successfully added to NetBox'' @ e2"]
    by simp_all
  have d: "scan_line r l1 = r\<lparr>device_ids := device_ids r @ [42]\<rparr>" for r
    using scan_line_device[OF ts(1) nx _ _ e(1), of "''42''" r] l1
    by (simp add: is_digit_def int_of_digits_def digit_val_def)
  have i: "scan_line r l2 = r\<lparr>ip_address_ids := ip_address_ids r @ [7]\<rparr>" for r
    using scan_line_ip[OF ts(2) ny _ _ e(2), of "''7''" r] l2
    by (simp add: is_digit_def int_of_digits_def digit_val_def)
  have "foldl scan_line \<lparr>device_ids = [], ip_address_ids = []\<rparr> (before @ [la] @ between @ [lb] @ after)
        = \<lparr>device_ids = [42], ip_address_ids = [7]\<rparr>"
    using others order by (auto simp: foldl_scan_non_matching d i)
  then show ?thesis
    by (simp add: parse_successful_log_entries_def lines scan_line_non_matching)
qed

theorem audit_extraction_witness:
  "parse_successful_log_entries
     (Some (''noise'' @ [carriage_return, newline] @
            ''t - INFO - IP address Y with ID 7 successfully added to NetBox'' @ [newline] @
            ''t - INFO - VRF v with ID 3 successfully added to NetBox.'' @ [carriage_return] @
            ''t - INFO - Device X with ID 42 successfully added to NetBox'' @ [newline]))
   = Some \<lparr>device_ids = [42], ip_address_ids = [7]\<rparr>"
proof -
  have h1: "lines_of (universal_newlines (''noise'' @ [carriage_return, newline] @
            ''t - INFO - IP address Y with ID 7 successfully added to NetBox'' @ [newline] @
            ''t - INFO - VRF v with ID 3 successfully added to NetBox.'' @ [carriage_return] @
            ''t - INFO - Device X with ID 42 successfully added to NetBox'' @ [newline]))
        = [''noise'' @ [newline]]
          @ [''t - '' @ ''INFO - IP address '' @ ''Y'' @ '' with ID 7 successfully added to NetBox'' @ [newline]]
          @ [''t - INFO - VRF v with ID 3 successfully added to NetBox.'' @ [newline]]
          @ [''t - '' @ ''INFO - Device '' @ ''X'' @ '' with ID 42 successfully added to NetBox'' @ [newline]]
          @ []"
    by (simp add: newline_def carriage_return_def)
  have h2: "\<not> sublist ''INFO - '' ''t - ''"
    by (simp add: sublist_code)
  have h3: "CHR '' '' \<notin> set [newline]"
    by (simp add: newline_def)
  have h4: "\<forall>l\<in>set ([''noise'' @ [newline]]
               @ [''t - INFO - VRF v with ID 3 successfully added to NetBox.'' @ [newline]] @ []).
             non_matching l"
    by (auto intro!: non_matching_by_keyword simp: sublist_code newline_def)
  show ?thesis
    using audit_extraction[OF h1 disjI2[OF conjI[OF refl refl]] refl refl h2 h2 h3 h3 h4] by simp
qed





section \<open>Entity reconciler (process_device)\<close>

subsection \<open>Controller records, Python values and exceptions\<close>

text \<open>
  A device record is the dictionary the controller client returns. The source reads
  \<^verbatim>\<open>name\<close>, \<^verbatim>\<open>model\<close> and \<^verbatim>\<open>ip\<close> by subscript (a missing key raises \<^verbatim>\<open>KeyError\<close>) and
  \<^verbatim>\<open>serial\<close>, \<^verbatim>\<open>is_access_point\<close> and \<^verbatim>\<open>port_table\<close> with \<^verbatim>\<open>.get\<close>; \<open>None\<close> is a key that
  is absent. The entries of the port table are dictionaries read by subscript.
\<close>

datatype pyval = PyNone | PyBool bool | PyStr string

fun py_str :: "pyval \<Rightarrow> string" where
  "py_str PyNone = ''None''"
| "py_str (PyBool True) = ''True''"
| "py_str (PyBool False) = ''False''"
| "py_str (PyStr s) = s"

text \<open>\<^verbatim>\<open>str.lower\<close> on the ASCII letters; other characters are left alone (no character
  outside ASCII is lowered to one of the letters of \<^verbatim>\<open>true\<close>, the only string the result
  is compared with).\<close>

definition lower_char :: "char \<Rightarrow> char" where
  "lower_char c =
     (if of_char CHR ''A'' \<le> (of_char c :: nat) \<and> (of_char c :: nat) \<le> of_char CHR ''Z''
      then char_of (of_char c + (32 :: nat)) else c)"

definition lower :: "string \<Rightarrow> string" where
  "lower s = map lower_char s"

record port =
  media :: "string option"
  port_name :: "string option"

record device =
  name :: "string option"
  model :: "string option"
  ip :: "string option"
  serial :: "string option"
  is_access_point :: "pyval option"
  port_table :: "port list option"

datatype exn =
    KeyError string
  | ValueError string
  | NameError string
  | IndexError string
  | HTTPError string
  | RequestError string

text \<open>How a block of statements inside the \<^verbatim>\<open>try\<close> of \<open>process_device\<close> ends: it
  falls through with a value, executes \<^verbatim>\<open>return\<close>, or raises.\<close>

datatype 'a res = Ok 'a | Return | Raise exn

subsection \<open>The inventory system\<close>

text \<open>
  The inventory system (NetBox, reached through the pynetbox client) is an external
  collaborator. Its model is an in-memory store with the operations the source calls:
  \<^verbatim>\<open>get\<close> returns nothing, the one match, or raises \<^verbatim>\<open>ValueError\<close> when several records
  match; \<^verbatim>\<open>filter\<close> returns the matches; \<^verbatim>\<open>create\<close> appends a record with a new id.
  Creating a device is refused with the message the source tests for when a device of
  that name exists at the site. Every operation is recorded in \<open>calls\<close>, in order.
\<close>

record vrf =
  vrf_id :: nat
  vrf_name :: string

record device_type =
  dt_id :: nat
  dt_manufacturer :: nat
  dt_model :: string
  dt_slug :: string

record interface_template =
  it_id :: nat
  it_device_type :: nat
  it_name :: string
  it_type :: string

text \<open>The dictionary \<^verbatim>\<open>device_data\<close> that is posted: the five fixed keys, and the key
  \<^verbatim>\<open>role\<close> or \<^verbatim>\<open>device_role\<close>.\<close>

record device_data =
  dd_name :: string
  dd_device_type :: nat
  dd_tenant :: nat
  dd_site :: nat
  dd_serial :: string
  dd_role :: "nat option"
  dd_device_role :: "nat option"

record nb_device =
  nbd_id :: nat
  nbd_data :: device_data
  primary_ip4 :: "nat option"

record interface =
  if_id :: nat
  if_device :: nat
  if_name :: string
  if_type :: string
  if_enabled :: bool
  if_vrf :: nat

record ip_data =
  assigned_object_id :: nat
  assigned_object_type :: string
  address :: string
  ipd_vrf :: nat
  ipd_tenant :: nat
  status :: string

record ip_address =
  ip_id :: nat
  ip_fields :: ip_data

record nb_prefix =
  prefix_cidr :: string
  prefix_vrf :: "nat option"

text \<open>The answer to the \<^verbatim>\<open>OPTIONS\<close> request of \<open>get_postable_fields\<close>: the request fails
  (\<^verbatim>\<open>raise_for_status\<close> raises), or the body is a JSON object whose optional \<^verbatim>\<open>actions\<close>
  maps a method to its fields (here: to their names).\<close>

datatype options_reply = OptionsFailed | OptionsBody "(string \<times> string list) list option"

datatype request =
    Vrfs_get string
  | Vrfs_filter string
  | Vrfs_create string
  | Device_types_get string nat
  | Device_types_create nat string string
  | Interface_templates_create nat string string
  | Devices_get nat string
  | Options string
  | Devices_create device_data
  | Prefixes_filter string nat
  | Interfaces_get nat string
  | Interfaces_create nat string string bool nat
  | Ip_addresses_get string nat nat
  | Ip_addresses_create ip_data
  | Device_save nat nat

record netbox =
  vrfs :: "vrf list"
  device_types :: "device_type list"
  interface_templates :: "interface_template list"
  devices :: "nb_device list"
  interfaces :: "interface list"
  ip_addresses :: "ip_address list"
  prefixes :: "nb_prefix list"
  schema :: "string \<Rightarrow> options_reply"
  calls :: "request list"

fun is_create :: "request \<Rightarrow> bool" where
  "is_create (Vrfs_create _) = True"
| "is_create (Device_types_create _ _ _) = True"
| "is_create (Interface_templates_create _ _ _) = True"
| "is_create (Devices_create _) = True"
| "is_create (Interfaces_create _ _ _ _ _) = True"
| "is_create (Ip_addresses_create _) = True"
| "is_create _ = False"

definition called :: "request \<Rightarrow> netbox \<Rightarrow> netbox" where
  "called r nb = nb\<lparr>calls := calls nb @ [r]\<rparr>"

definition more_than_one :: string where
  "more_than_one = ''get() returned more than one result. Check that the kwarg(s) passed are valid for this endpoint or use filter() or all() instead.''"

definition name_not_unique :: string where
  "name_not_unique = ''The request failed with code 400 Bad Request: Device name must be unique per site.''"

definition get_one :: "'a list \<Rightarrow> 'a option res" where
  "get_one matches =
     (case matches of
        [] \<Rightarrow> Ok None
      | [x] \<Rightarrow> Ok (Some x)
      | _ \<Rightarrow> Raise (ValueError more_than_one))"

definition new_id :: "nat list \<Rightarrow> nat" where
  "new_id ids = Suc (fold max ids 0)"

definition vrfs_get :: "string \<Rightarrow> netbox \<Rightarrow> vrf option res \<times> netbox" where
  "vrfs_get nm nb = (get_one (filter (\<lambda>v. vrf_name v = nm) (vrfs nb)), called (Vrfs_get nm) nb)"

definition vrfs_filter :: "string \<Rightarrow> netbox \<Rightarrow> vrf list res \<times> netbox" where
  "vrfs_filter nm nb = (Ok (filter (\<lambda>v. vrf_name v = nm) (vrfs nb)), called (Vrfs_filter nm) nb)"

definition vrfs_create :: "string \<Rightarrow> netbox \<Rightarrow> vrf res \<times> netbox" where
  "vrfs_create nm nb =
     (let v = \<lparr>vrf_id = new_id (map vrf_id (vrfs nb)), vrf_name = nm\<rparr>
      in (Ok v, called (Vrfs_create nm) (nb\<lparr>vrfs := vrfs nb @ [v]\<rparr>)))"

definition device_types_get :: "string \<Rightarrow> nat \<Rightarrow> netbox \<Rightarrow> device_type option res \<times> netbox" where
  "device_types_get mdl manufacturer_id nb =
     (get_one (filter (\<lambda>t. dt_model t = mdl \<and> dt_manufacturer t = manufacturer_id) (device_types nb)),
      called (Device_types_get mdl manufacturer_id) nb)"

definition device_types_create :: "nat \<Rightarrow> string \<Rightarrow> string \<Rightarrow> netbox \<Rightarrow> device_type res \<times> netbox" where
  "device_types_create manufacturer mdl slug nb =
     (let t = \<lparr>dt_id = new_id (map dt_id (device_types nb)), dt_manufacturer = manufacturer,
                dt_model = mdl, dt_slug = slug\<rparr>
      in (Ok t, called (Device_types_create manufacturer mdl slug)
                  (nb\<lparr>device_types := device_types nb @ [t]\<rparr>)))"

definition interface_templates_create ::
    "nat \<Rightarrow> string \<Rightarrow> string \<Rightarrow> netbox \<Rightarrow> interface_template res \<times> netbox" where
  "interface_templates_create dt nm ty nb =
     (let t = \<lparr>it_id = new_id (map it_id (interface_templates nb)), it_device_type = dt,
                it_name = nm, it_type = ty\<rparr>
      in (Ok t, called (Interface_templates_create dt nm ty)
                  (nb\<lparr>interface_templates := interface_templates nb @ [t]\<rparr>)))"

definition devices_get :: "nat \<Rightarrow> string \<Rightarrow> netbox \<Rightarrow> nb_device option res \<times> netbox" where
  "devices_get site_pk srl nb =
     (get_one (filter (\<lambda>d. dd_site (nbd_data d) = site_pk \<and> dd_serial (nbd_data d) = srl) (devices nb)),
      called (Devices_get site_pk srl) nb)"

definition name_taken :: "nat \<Rightarrow> string \<Rightarrow> netbox \<Rightarrow> bool" where
  "name_taken site_pk nm nb =
     (\<exists>d \<in> set (devices nb). dd_site (nbd_data d) = site_pk \<and> dd_name (nbd_data d) = nm)"

definition devices_create :: "device_data \<Rightarrow> netbox \<Rightarrow> nb_device res \<times> netbox" where
  "devices_create device_data nb =
     (if name_taken (dd_site device_data) (dd_name device_data) nb
      then (Raise (RequestError name_not_unique), called (Devices_create device_data) nb)
      else
        (let d = \<lparr>nbd_id = new_id (map nbd_id (devices nb)), nbd_data = device_data,
                   primary_ip4 = None\<rparr>
         in (Ok d, called (Devices_create device_data) (nb\<lparr>devices := devices nb @ [d]\<rparr>))))"

definition prefixes_filter ::
    "(string \<Rightarrow> string \<Rightarrow> bool) \<Rightarrow> string \<Rightarrow> nat \<Rightarrow> netbox \<Rightarrow> nb_prefix list res \<times> netbox" where
  "prefixes_filter contains_ip addr vrf nb =
     (Ok (filter (\<lambda>p. prefix_vrf p = Some vrf \<and> contains_ip (prefix_cidr p) addr) (prefixes nb)),
      called (Prefixes_filter addr vrf) nb)"

definition interfaces_get :: "nat \<Rightarrow> string \<Rightarrow> netbox \<Rightarrow> interface option res \<times> netbox" where
  "interfaces_get device_id nm nb =
     (get_one (filter (\<lambda>i. if_device i = device_id \<and> if_name i = nm) (interfaces nb)),
      called (Interfaces_get device_id nm) nb)"

definition interfaces_create ::
    "nat \<Rightarrow> string \<Rightarrow> string \<Rightarrow> bool \<Rightarrow> nat \<Rightarrow> netbox \<Rightarrow> interface res \<times> netbox" where
  "interfaces_create dev nm ty en vrf nb =
     (let i = \<lparr>if_id = new_id (map if_id (interfaces nb)), if_device = dev, if_name = nm,
                if_type = ty, if_enabled = en, if_vrf = vrf\<rparr>
      in (Ok i, called (Interfaces_create dev nm ty en vrf) (nb\<lparr>interfaces := interfaces nb @ [i]\<rparr>)))"

definition ip_addresses_get :: "string \<Rightarrow> nat \<Rightarrow> nat \<Rightarrow> netbox \<Rightarrow> ip_address option res \<times> netbox" where
  "ip_addresses_get addr vrf tenant_pk nb =
     (get_one (filter (\<lambda>a. address (ip_fields a) = addr \<and> ipd_vrf (ip_fields a) = vrf
                          \<and> ipd_tenant (ip_fields a) = tenant_pk) (ip_addresses nb)),
      called (Ip_addresses_get addr vrf tenant_pk) nb)"

definition ip_addresses_create :: "ip_data \<Rightarrow> netbox \<Rightarrow> ip_address res \<times> netbox" where
  "ip_addresses_create ipd nb =
     (let a = \<lparr>ip_id = new_id (map ip_id (ip_addresses nb)), ip_fields = ipd\<rparr>
      in (Ok a, called (Ip_addresses_create ipd) (nb\<lparr>ip_addresses := ip_addresses nb @ [a]\<rparr>)))"

text \<open>\<^verbatim>\<open>nb_device.primary_ip4 = nb_ip.id; nb_device.save()\<close>.\<close>

definition device_save :: "nat \<Rightarrow> nat \<Rightarrow> netbox \<Rightarrow> unit res \<times> netbox" where
  "device_save device_id ip_pk nb =
     (Ok (),
      called (Device_save device_id ip_pk)
        (nb\<lparr>devices := map (\<lambda>d. if nbd_id d = device_id then d\<lparr>primary_ip4 := Some ip_pk\<rparr> else d)
                           (devices nb)\<rparr>))"

text \<open>\<open>get_postable_fields\<close> (lines 29-45): the names of the fields under
  \<^verbatim>\<open>actions.POST\<close> of the answer, the empty dictionary when either key is missing.\<close>

definition get_postable_fields :: "string \<Rightarrow> netbox \<Rightarrow> string list res \<times> netbox" where
  "get_postable_fields url_path nb =
     (case schema nb url_path of
        OptionsFailed \<Rightarrow> (Raise (HTTPError url_path), called (Options url_path) nb)
      | OptionsBody actions \<Rightarrow>
          (Ok (case actions of
                 None \<Rightarrow> []
               | Some a \<Rightarrow> (case map_of a ''POST'' of None \<Rightarrow> [] | Some post \<Rightarrow> post)),
           called (Options url_path) nb))"

subsection \<open>process_device\<close>

text \<open>
  The objects fixed before the run and the library functions the source calls:
  the two device roles (module globals), \<^verbatim>\<open>ipaddress.ip_address\<close> (does it accept the
  string), the inventory's test whether a prefix contains an address, and \<^verbatim>\<open>slugify\<close>.
\<close>

record role =
  role_id :: nat

record site =
  site_id :: nat
  site_name :: string

record manufacturer =
  mf_id :: nat
  mf_name :: string

record tenant =
  tenant_id :: nat

record env =
  wireless_role :: role
  lan_role :: role
  ip_address_ok :: "string \<Rightarrow> bool"
  prefix_contains :: "string \<Rightarrow> string \<Rightarrow> bool"
  slugify :: "string \<Rightarrow> string"

definition then_do ::
    "(netbox \<Rightarrow> 'a res \<times> netbox) \<Rightarrow> ('a \<Rightarrow> netbox \<Rightarrow> 'b res \<times> netbox) \<Rightarrow> netbox \<Rightarrow> 'b res \<times> netbox" where
  "then_do m f nb =
     (case m nb of
        (Ok x, nb') \<Rightarrow> f x nb'
      | (Return, nb') \<Rightarrow> (Return, nb')
      | (Raise e, nb') \<Rightarrow> (Raise e, nb'))"

text \<open>\<^verbatim>\<open>except pynetbox.core.query.RequestError as e: ...\<close> around a call.\<close>

definition except_request_error ::
    "'a res \<times> netbox \<Rightarrow> (string \<Rightarrow> netbox \<Rightarrow> 'a res \<times> netbox) \<Rightarrow> 'a res \<times> netbox" where
  "except_request_error r handler =
     (case r of
        (Raise (RequestError error_message), nb') \<Rightarrow> handler error_message nb'
      | _ \<Rightarrow> r)"

text \<open>Lines 226-230: the device role.\<close>

definition device_role :: "env \<Rightarrow> device \<Rightarrow> role" where
  "device_role e d =
     (if lower (py_str (case is_access_point d of None \<Rightarrow> PyStr ''false'' | Some v \<Rightarrow> v)) = ''true''
      then wireless_role e else lan_role e)"

text \<open>Lines 254-258: \<^verbatim>\<open>if not vrf: vrf = nb.ipam.vrfs.create({"name": vrf_name})\<close>.\<close>

definition vrf_or_create :: "string \<Rightarrow> vrf option \<Rightarrow> netbox \<Rightarrow> vrf res \<times> netbox" where
  "vrf_or_create vrf_nm found nb =
     (case found of Some v \<Rightarrow> (Ok v, nb) | None \<Rightarrow> vrfs_create vrf_nm nb)"

text \<open>Lines 236-258: the VRF of the site, looked up by name; when the lookup is
  ambiguous the first record that \<^verbatim>\<open>filter\<close> returns is taken.\<close>

definition vrf_step :: "site \<Rightarrow> netbox \<Rightarrow> vrf res \<times> netbox" where
  "vrf_step st nb =
     (let vrf_nm = ''vrf_'' @ site_name st
      in case vrfs_get vrf_nm nb of
           (Raise (ValueError error_message), nb1) \<Rightarrow>
             if sublist ''get() returned more than one result.'' error_message
             then then_do (vrfs_filter vrf_nm)
                    (\<lambda>found. vrf_or_create vrf_nm (case found of [] \<Rightarrow> None | vrf_item # _ \<Rightarrow> Some vrf_item))
                    nb1
             else (Return, nb1)
         | (Raise e, nb1) \<Rightarrow> (Raise e, nb1)
         | (Return, nb1) \<Rightarrow> (Return, nb1)
         | (Ok found, nb1) \<Rightarrow> vrf_or_create vrf_nm found nb1)"

text \<open>Lines 272-285: one interface template per port of media \<^verbatim>\<open>GE\<close>; a refused
  template is logged and the loop goes on.\<close>

fun create_templates :: "nat \<Rightarrow> port list \<Rightarrow> netbox \<Rightarrow> unit res \<times> netbox" where
  "create_templates dt [] nb = (Ok (), nb)"
| "create_templates dt (p # ports) nb =
     (case media p of
        None \<Rightarrow> (Raise (KeyError ''media''), nb)
      | Some m \<Rightarrow>
          if m = ''GE'' then
            (case port_name p of
               None \<Rightarrow> (Raise (KeyError ''name''), nb)
             | Some nm \<Rightarrow>
                 (case except_request_error (interface_templates_create dt nm ''1000base-t'' nb)
                         (\<lambda>e nb'. (Return, nb')) of
                    (Raise e, nb') \<Rightarrow> (Raise e, nb')
                  | (_, nb') \<Rightarrow> create_templates dt ports nb'))
          else create_templates dt ports nb)"

text \<open>Lines 260-285: the device type of (manufacturer, model); created, with its
  interface templates, when the lookup finds none.\<close>

definition device_type_step :: "env \<Rightarrow> manufacturer \<Rightarrow> device \<Rightarrow> netbox \<Rightarrow> device_type res \<times> netbox" where
  "device_type_step e nb_ubiquity d nb =
     (case model d of
        None \<Rightarrow> (Raise (KeyError ''model''), nb)
      | Some mdl \<Rightarrow>
          then_do (device_types_get mdl (mf_id nb_ubiquity))
            (\<lambda>found nb1.
               case found of
                 Some nb_device_type \<Rightarrow> (Ok nb_device_type, nb1)
               | None \<Rightarrow>
                   then_do
                     (\<lambda>nb1. except_request_error
                               (device_types_create (mf_id nb_ubiquity) mdl
                                  (slugify e (mf_name nb_ubiquity @ ''-'' @ mdl)) nb1)
                               (\<lambda>e nb'. (Return, nb')))
                     (\<lambda>nb_device_type.
                        then_do
                          (create_templates (dt_id nb_device_type)
                             (case port_table d of None \<Rightarrow> [] | Some ports \<Rightarrow> ports))
                          (\<lambda>_ nb3. (Ok nb_device_type, nb3)))
                     nb1)
            nb)"

text \<open>Lines 287-291: a device with this serial at the site ends the processing.\<close>

definition existing_device_check :: "site \<Rightarrow> string \<Rightarrow> netbox \<Rightarrow> unit res \<times> netbox" where
  "existing_device_check st srl nb =
     then_do (devices_get (site_id st) srl)
       (\<lambda>found nb1. case found of Some _ \<Rightarrow> (Return, nb1) | None \<Rightarrow> (Ok (), nb1))
       nb"

text \<open>Lines 317-341: the device is posted; when the inventory answers that the name is
  taken at the site, it is posted once more under the name \<^verbatim>\<open><name>_<serial>\<close>, and a
  second refusal ends the processing. Any other refusal ends it at once.\<close>

definition create_with_retry :: "device_data \<Rightarrow> string \<Rightarrow> string \<Rightarrow> netbox \<Rightarrow> nb_device res \<times> netbox" where
  "create_with_retry device_data nm srl nb =
     except_request_error (devices_create device_data nb)
       (\<lambda>error_message nb1.
          if sublist ''Device name must be unique per site'' error_message
          then except_request_error
                 (devices_create (device_data\<lparr>dd_name := nm @ ''_'' @ srl\<rparr>) nb1)
                 (\<lambda>e2 nb2. (Return, nb2))
          else (Return, nb1))"

text \<open>Lines 293-341. The \<^verbatim>\<open>else\<close> branch of the role field formats a message with the
  names \<^verbatim>\<open>device_name\<close> and \<^verbatim>\<open>serial\<close>, which are not defined in the function: Python
  raises \<^verbatim>\<open>NameError\<close> there, before \<^verbatim>\<open>return None\<close> is reached.\<close>

definition create_device_step ::
    "site \<Rightarrow> device_type \<Rightarrow> tenant \<Rightarrow> role \<Rightarrow> string \<Rightarrow> string \<Rightarrow> netbox \<Rightarrow> nb_device res \<times> netbox" where
  "create_device_step st nb_device_type tn nb_device_role nm srl nb =
     (let device_data = \<lparr>dd_name = nm, dd_device_type = dt_id nb_device_type,
                          dd_tenant = tenant_id tn, dd_site = site_id st, dd_serial = srl,
                          dd_role = None, dd_device_role = None\<rparr>
      in then_do (get_postable_fields ''dcim/devices'')
           (\<lambda>available_fields nb1.
              if ''role'' \<in> set available_fields
              then create_with_retry (device_data\<lparr>dd_role := Some (role_id nb_device_role)\<rparr>) nm srl nb1
              else if ''device_role'' \<in> set available_fields
              then create_with_retry (device_data\<lparr>dd_device_role := Some (role_id nb_device_role)\<rparr>) nm srl nb1
              else (Raise (NameError ''device_name''), nb1))
           nb)"

text \<open>\<^verbatim>\<open>prefix.prefix.split('/')[1]\<close>: the text between the first and the second slash;
  \<^verbatim>\<open>IndexError\<close> when there is no slash.\<close>

definition subnet_mask_of :: "string \<Rightarrow> string option" where
  "subnet_mask_of cidr =
     (case after_first ''/'' cidr of
        None \<Rightarrow> None
      | Some r \<Rightarrow> Some (takeWhile (\<lambda>c. c \<noteq> CHR ''/'') r))"

text \<open>Lines 359-394: the interface \<^verbatim>\<open>vlan.1\<close> of the new device, the IP address, and
  the device's primary address.\<close>

definition attach_ip :: "tenant \<Rightarrow> vrf \<Rightarrow> nb_device \<Rightarrow> string \<Rightarrow> netbox \<Rightarrow> unit res \<times> netbox" where
  "attach_ip tn v nb_dev addr nb =
     then_do (interfaces_get (nbd_id nb_dev) ''vlan.1'')
       (\<lambda>found.
          then_do
            (\<lambda>nb1. case found of
                     Some i \<Rightarrow> (Ok i, nb1)
                   | None \<Rightarrow>
                       except_request_error
                         (interfaces_create (nbd_id nb_dev) ''vlan.1'' ''virtual'' True (vrf_id v) nb1)
                         (\<lambda>e nb'. (Return, nb')))
            (\<lambda>interface.
               then_do (ip_addresses_get addr (vrf_id v) (tenant_id tn))
                 (\<lambda>found_ip.
                    then_do
                      (\<lambda>nb3. case found_ip of
                               Some a \<Rightarrow> (Ok a, nb3)
                             | None \<Rightarrow>
                                 except_request_error
                                   (ip_addresses_create
                                      \<lparr>assigned_object_id = if_id interface,
                                       assigned_object_type = ''dcim.interface'',
                                       address = addr, ipd_vrf = vrf_id v,
                                       ipd_tenant = tenant_id tn, status = ''active''\<rparr> nb3)
                                   (\<lambda>e nb'. (Return, nb')))
                      (\<lambda>nb_ip. device_save (nbd_id nb_dev) (ip_id nb_ip)))))
       nb"

text \<open>Lines 343-394: the primary IP address. An address that \<^verbatim>\<open>ipaddress.ip_address\<close>
  rejects, and an address that no prefix of the VRF contains, end the processing.\<close>

definition ip_step :: "env \<Rightarrow> tenant \<Rightarrow> device \<Rightarrow> vrf \<Rightarrow> nb_device \<Rightarrow> netbox \<Rightarrow> unit res \<times> netbox" where
  "ip_step e tn d v nb_dev nb =
     (case ip d of
        None \<Rightarrow> (Raise (KeyError ''ip''), nb)
      | Some device_ip \<Rightarrow>
          if \<not> ip_address_ok e device_ip then (Return, nb)
          else
            then_do (prefixes_filter (prefix_contains e) device_ip (vrf_id v))
              (\<lambda>found nb1.
                 case found of
                   [] \<Rightarrow> (Return, nb1)
                 | pfx # _ \<Rightarrow>
                     (case subnet_mask_of (prefix_cidr pfx) of
                        None \<Rightarrow> (Raise (IndexError ''list index out of range''), nb1)
                      | Some subnet_mask \<Rightarrow> attach_ip tn v nb_dev (device_ip @ ''/'' @ subnet_mask) nb1))
              nb)"

text \<open>The body of the \<^verbatim>\<open>try\<close> block after its first statement, for a device that has
  a name.\<close>

definition process_device_body ::
    "env \<Rightarrow> site \<Rightarrow> device \<Rightarrow> string \<Rightarrow> manufacturer \<Rightarrow> tenant \<Rightarrow> netbox \<Rightarrow> unit res \<times> netbox" where
  "process_device_body e st d nm nb_ubiquity tn nb =
     (let nb_device_role = device_role e d
      in case serial d of
           None \<Rightarrow> (Return, nb)
         | Some srl \<Rightarrow>
             if srl = [] then (Return, nb)
             else
               then_do (vrf_step st)
                 (\<lambda>v.
                    then_do (device_type_step e nb_ubiquity d)
                      (\<lambda>nb_device_type.
                         then_do (existing_device_check st srl)
                           (\<lambda>_.
                              then_do (create_device_step st nb_device_type tn nb_device_role nm srl)
                                (\<lambda>nb_dev. ip_step e tn d v nb_dev))))
                 nb)"

text \<open>How a call of \<open>process_device\<close> ends: it returns (by \<^verbatim>\<open>return\<close> or at the end of the
  block), or an exception reaches \<^verbatim>\<open>except Exception\<close>, is logged and the function
  returns, or an exception leaves the function. The first statement of the \<^verbatim>\<open>try\<close> block
  and the handler both format \<^verbatim>\<open>device['name']\<close>: for a record without a name the
  \<^verbatim>\<open>KeyError\<close> of the first statement is caught and the handler raises it again.\<close>

datatype outcome = Returned | Caught exn | Escaped exn

definition process_device ::
    "env \<Rightarrow> site \<Rightarrow> device \<Rightarrow> manufacturer \<Rightarrow> tenant \<Rightarrow> netbox \<Rightarrow> outcome \<times> netbox" where
  "process_device e st d nb_ubiquity tn nb =
     (case name d of
        None \<Rightarrow> (Escaped (KeyError ''name''), nb)
      | Some nm \<Rightarrow>
          (case process_device_body e st d nm nb_ubiquity tn nb of
             (Raise ex, nb') \<Rightarrow> (Caught ex, nb')
           | (_, nb') \<Rightarrow> (Returned, nb')))"

text \<open>A run over the devices of the matched sites, one device after the other (the
  worker pools of the source run them concurrently; here they run in the order of
  the list). The exception of a device does not stop the others.\<close>

fun reconcile :: "env \<Rightarrow> manufacturer \<Rightarrow> tenant \<Rightarrow> (site \<times> device) list \<Rightarrow> netbox \<Rightarrow> netbox" where
  "reconcile e nb_ubiquity tn [] nb = nb"
| "reconcile e nb_ubiquity tn ((st, d) # work) nb =
     reconcile e nb_ubiquity tn work (snd (process_device e st d nb_ubiquity tn nb))"

text \<open>The requests a step adds to the record of calls.\<close>

definition new_calls :: "netbox \<Rightarrow> netbox \<Rightarrow> request list" where
  "new_calls nb nb' = drop (length (calls nb)) (calls nb')"

subsection \<open>Properties of process_device\<close>

text \<open>A flag that reads as true: the Boolean \<^verbatim>\<open>True\<close>, or a string that spells
  \<^verbatim>\<open>true\<close> in any mix of upper and lower case.\<close>

definition spelled_true :: "string \<Rightarrow> bool" where
  "spelled_true s =
     (case s of
        [a, b, c, d] \<Rightarrow>
          a \<in> {CHR ''t'', CHR ''T''} \<and> b \<in> {CHR ''r'', CHR ''R''} \<and>
          c \<in> {CHR ''u'', CHR ''U''} \<and> d \<in> {CHR ''e'', CHR ''E''}
      | _ \<Rightarrow> False)"

definition says_true :: "pyval option \<Rightarrow> bool" where
  "says_true v =
     (case v of
        None \<Rightarrow> False
      | Some PyNone \<Rightarrow> False
      | Some (PyBool b) \<Rightarrow> b
      | Some (PyStr s) \<Rightarrow> spelled_true s)"

lemma of_char_lower:
  "(of_char (lower_char c) :: nat) =
     (if 65 \<le> (of_char c :: nat) \<and> (of_char c :: nat) \<le> 90 then of_char c + 32 else of_char c)"
  by (simp add: lower_char_def)

lemma lower_char_iff:
  assumes "97 \<le> (of_char l :: nat)" "(of_char l :: nat) \<le> 122"
  shows "lower_char c = l \<longleftrightarrow> c = l \<or> (of_char c :: nat) + 32 = of_char l"
proof -
  have "lower_char c = l \<longleftrightarrow> (of_char (lower_char c) :: nat) = of_char l"
    by simp
  also have "\<dots> \<longleftrightarrow> (of_char c :: nat) = of_char l \<or> (of_char c :: nat) + 32 = of_char l"
    using assms by (auto simp: of_char_lower)
  finally show ?thesis by simp
qed

lemma lower_true: "lower s = ''true'' \<longleftrightarrow> spelled_true s"
proof -
  have t: "lower_char c = CHR ''t'' \<longleftrightarrow> c \<in> {CHR ''t'', CHR ''T''}" for c
  proof -
    have "((of_char c :: nat) + 32 = of_char CHR ''t'') = ((of_char c :: nat) = of_char CHR ''T'')"
      by simp
    then have "((of_char c :: nat) + 32 = of_char CHR ''t'') = (c = CHR ''T'')"
      by (simp only: of_char_eq_iff)
    then show ?thesis
      by (subst lower_char_iff) auto
  qed
  have r: "lower_char c = CHR ''r'' \<longleftrightarrow> c \<in> {CHR ''r'', CHR ''R''}" for c
  proof -
    have "((of_char c :: nat) + 32 = of_char CHR ''r'') = ((of_char c :: nat) = of_char CHR ''R'')"
      by simp
    then have "((of_char c :: nat) + 32 = of_char CHR ''r'') = (c = CHR ''R'')"
      by (simp only: of_char_eq_iff)
    then show ?thesis
      by (subst lower_char_iff) auto
  qed
  have u: "lower_char c = CHR ''u'' \<longleftrightarrow> c \<in> {CHR ''u'', CHR ''U''}" for c
  proof -
    have "((of_char c :: nat) + 32 = of_char CHR ''u'') = ((of_char c :: nat) = of_char CHR ''U'')"
      by simp
    then have "((of_char c :: nat) + 32 = of_char CHR ''u'') = (c = CHR ''U'')"
      by (simp only: of_char_eq_iff)
    then show ?thesis
      by (subst lower_char_iff) auto
  qed
  have e: "lower_char c = CHR ''e'' \<longleftrightarrow> c \<in> {CHR ''e'', CHR ''E''}" for c
  proof -
    have "((of_char c :: nat) + 32 = of_char CHR ''e'') = ((of_char c :: nat) = of_char CHR ''E'')"
      by simp
    then have "((of_char c :: nat) + 32 = of_char CHR ''e'') = (c = CHR ''E'')"
      by (simp only: of_char_eq_iff)
    then show ?thesis
      by (subst lower_char_iff) auto
  qed
  show ?thesis
    by (auto simp: lower_def spelled_true_def t r u e split: list.splits)
qed

text \<open>
  Claim C8. The role \<open>process_device\<close> selects for a device is the wireless role when
  the \<^verbatim>\<open>is_access_point\<close> field of the record, written as a string, spells \<^verbatim>\<open>true\<close> in
  any mix of upper and lower case, and the LAN role otherwise (also when the field is
  absent).
\<close>

theorem device_role_selection:
  "device_role e d = (if says_true (is_access_point d) then wireless_role e else lan_role e)"
proof -
  have "lower (py_str (case is_access_point d of None \<Rightarrow> PyStr ''false'' | Some v \<Rightarrow> v)) = ''true''
        \<longleftrightarrow> says_true (is_access_point d)"
  proof (cases "is_access_point d")
    case None
    then show ?thesis by (simp add: says_true_def lower_def lower_char_def char_of_eq_iff)
  next
    case (Some v)
    then show ?thesis
    proof (cases v)
      case PyNone
      with Some show ?thesis by (simp add: says_true_def lower_def lower_char_def char_of_eq_iff)
    next
      case (PyBool b)
      with Some show ?thesis by (cases b) (simp_all add: says_true_def lower_def lower_char_def char_of_eq_iff)
    next
      case (PyStr s)
      with Some show ?thesis by (simp add: says_true_def lower_true)
    qed
  qed
  then show ?thesis by (simp add: device_role_def)
qed

theorem device_role_selection_witness:
  "device_role
     \<lparr>wireless_role = \<lparr>role_id = 1\<rparr>, lan_role = \<lparr>role_id = 2\<rparr>, ip_address_ok = (\<lambda>_. True),
      prefix_contains = (\<lambda>_ _. False), slugify = id\<rparr>
     \<lparr>name = None, model = None, ip = None, serial = None,
      is_access_point = Some (PyStr ''TrUe''), port_table = None\<rparr> = \<lparr>role_id = 1\<rparr>
   \<and> device_role
     \<lparr>wireless_role = \<lparr>role_id = 1\<rparr>, lan_role = \<lparr>role_id = 2\<rparr>, ip_address_ok = (\<lambda>_. True),
      prefix_contains = (\<lambda>_ _. False), slugify = id\<rparr>
     \<lparr>name = None, model = None, ip = None, serial = None,
      is_access_point = Some (PyStr ''yes''), port_table = None\<rparr> = \<lparr>role_id = 2\<rparr>"
  using device_role_selection
          [of "\<lparr>wireless_role = \<lparr>role_id = 1\<rparr>, lan_role = \<lparr>role_id = 2\<rparr>, ip_address_ok = (\<lambda>_. True),
                prefix_contains = (\<lambda>_ _. False), slugify = id\<rparr>"
              "\<lparr>name = None, model = None, ip = None, serial = None,
                is_access_point = Some (PyStr ''TrUe''), port_table = None\<rparr>"]
        device_role_selection
          [of "\<lparr>wireless_role = \<lparr>role_id = 1\<rparr>, lan_role = \<lparr>role_id = 2\<rparr>, ip_address_ok = (\<lambda>_. True),
                prefix_contains = (\<lambda>_ _. False), slugify = id\<rparr>"
              "\<lparr>name = None, model = None, ip = None, serial = None,
                is_access_point = Some (PyStr ''yes''), port_table = None\<rparr>"]
  by (simp add: says_true_def spelled_true_def)

subsection \<open>What a step may change\<close>

text \<open>
  The operations of the inventory only add records (saving a device changes its
  primary address), and each of them is recorded in \<open>calls\<close>. \<open>kept nb nb' cs\<close> says
  that \<open>nb'\<close> comes from \<open>nb\<close> by the requests \<open>cs\<close>: the tables have grown, and a table
  that none of the requests writes is as it was.
\<close>


datatype table =
  T_vrfs | T_device_types | T_interface_templates | T_devices | T_interfaces | T_ip_addresses

fun writes :: "request \<Rightarrow> table option" where
  "writes (Vrfs_create _) = Some T_vrfs"
| "writes (Device_types_create _ _ _) = Some T_device_types"
| "writes (Interface_templates_create _ _ _) = Some T_interface_templates"
| "writes (Devices_create _) = Some T_devices"
| "writes (Device_save _ _) = Some T_devices"
| "writes (Interfaces_create _ _ _ _ _) = Some T_interfaces"
| "writes (Ip_addresses_create _) = Some T_ip_addresses"
| "writes _ = None"

definition untouched :: "table \<Rightarrow> request list \<Rightarrow> bool" where
  "untouched t cs = (\<forall>c \<in> set cs. writes c \<noteq> Some t)"

definition kept :: "netbox \<Rightarrow> netbox \<Rightarrow> request list \<Rightarrow> bool" where
  "kept nb nb' cs =
     (calls nb' = calls nb @ cs \<and>
      schema nb' = schema nb \<and> prefixes nb' = prefixes nb \<and>
      prefix (vrfs nb) (vrfs nb') \<and>
      prefix (device_types nb) (device_types nb') \<and>
      prefix (interface_templates nb) (interface_templates nb') \<and>
      prefix (map nbd_data (devices nb)) (map nbd_data (devices nb')) \<and>
      prefix (interfaces nb) (interfaces nb') \<and>
      prefix (ip_addresses nb) (ip_addresses nb') \<and>
      (untouched T_vrfs cs \<longrightarrow> vrfs nb' = vrfs nb) \<and>
      (untouched T_device_types cs \<longrightarrow> device_types nb' = device_types nb) \<and>
      (untouched T_interface_templates cs \<longrightarrow> interface_templates nb' = interface_templates nb) \<and>
      (untouched T_devices cs \<longrightarrow> devices nb' = devices nb) \<and>
      (untouched T_interfaces cs \<longrightarrow> interfaces nb' = interfaces nb) \<and>
      (untouched T_ip_addresses cs \<longrightarrow> ip_addresses nb' = ip_addresses nb))"

definition grows :: "(request \<Rightarrow> bool) \<Rightarrow> netbox \<Rightarrow> netbox \<Rightarrow> bool" where
  "grows P nb nb' = (\<exists>cs. kept nb nb' cs \<and> (\<forall>c \<in> set cs. P c))"

text \<open>\<open>steps S P m\<close>: from a state whose schema satisfies \<open>S\<close>, the step \<open>m\<close> only
  adds to the inventory, the tables it leaves alone stay as they are, and every
  request it issues satisfies \<open>P\<close>.\<close>

definition steps ::
    "((string \<Rightarrow> options_reply) \<Rightarrow> bool) \<Rightarrow> (request \<Rightarrow> bool) \<Rightarrow> (netbox \<Rightarrow> 'a res \<times> netbox) \<Rightarrow> bool" where
  "steps S P m = (\<forall>nb. S (schema nb) \<longrightarrow> grows P nb (snd (m nb)))"

datatype phase = Vrf_phase | Type_phase | Check_phase | Create_phase | Lookup_phase | Attach_phase

fun phase_of :: "request \<Rightarrow> phase" where
  "phase_of (Vrfs_get _) = Vrf_phase"
| "phase_of (Vrfs_filter _) = Vrf_phase"
| "phase_of (Vrfs_create _) = Vrf_phase"
| "phase_of (Device_types_get _ _) = Type_phase"
| "phase_of (Device_types_create _ _ _) = Type_phase"
| "phase_of (Interface_templates_create _ _ _) = Type_phase"
| "phase_of (Devices_get _ _) = Check_phase"
| "phase_of (Options _) = Create_phase"
| "phase_of (Devices_create _) = Create_phase"
| "phase_of (Prefixes_filter _ _) = Lookup_phase"
| "phase_of _ = Attach_phase"

lemma untouched_append [simp]: "untouched t (cs @ ds) \<longleftrightarrow> untouched t cs \<and> untouched t ds"
  by (auto simp: untouched_def)

lemma untouched_Nil [simp]: "untouched t []"
  by (simp add: untouched_def)

lemma untouched_single [simp]: "untouched t [c] \<longleftrightarrow> writes c \<noteq> Some t"
  by (simp add: untouched_def)

lemma kept_refl: "kept nb nb []"
  by (simp add: kept_def)

lemma kept_trans:
  assumes "kept a b cs" and "kept b c ds"
  shows "kept a c (cs @ ds)"
proof -
  have ab: "calls b = calls a @ cs" "schema b = schema a" "prefixes b = prefixes a"
    "prefix (vrfs a) (vrfs b)" "prefix (device_types a) (device_types b)"
    "prefix (interface_templates a) (interface_templates b)"
    "prefix (map nbd_data (devices a)) (map nbd_data (devices b))"
    "prefix (interfaces a) (interfaces b)" "prefix (ip_addresses a) (ip_addresses b)"
    "untouched T_vrfs cs \<Longrightarrow> vrfs b = vrfs a"
    "untouched T_device_types cs \<Longrightarrow> device_types b = device_types a"
    "untouched T_interface_templates cs \<Longrightarrow> interface_templates b = interface_templates a"
    "untouched T_devices cs \<Longrightarrow> devices b = devices a"
    "untouched T_interfaces cs \<Longrightarrow> interfaces b = interfaces a"
    "untouched T_ip_addresses cs \<Longrightarrow> ip_addresses b = ip_addresses a"
    using assms(1) by (simp_all add: kept_def)
  have bc: "calls c = calls b @ ds" "schema c = schema b" "prefixes c = prefixes b"
    "prefix (vrfs b) (vrfs c)" "prefix (device_types b) (device_types c)"
    "prefix (interface_templates b) (interface_templates c)"
    "prefix (map nbd_data (devices b)) (map nbd_data (devices c))"
    "prefix (interfaces b) (interfaces c)" "prefix (ip_addresses b) (ip_addresses c)"
    "untouched T_vrfs ds \<Longrightarrow> vrfs c = vrfs b"
    "untouched T_device_types ds \<Longrightarrow> device_types c = device_types b"
    "untouched T_interface_templates ds \<Longrightarrow> interface_templates c = interface_templates b"
    "untouched T_devices ds \<Longrightarrow> devices c = devices b"
    "untouched T_interfaces ds \<Longrightarrow> interfaces c = interfaces b"
    "untouched T_ip_addresses ds \<Longrightarrow> ip_addresses c = ip_addresses b"
    using assms(2) by (simp_all add: kept_def)
  note tr = prefix_order.trans
  show ?thesis
    unfolding kept_def
  proof (intro conjI impI)
    show "calls c = calls a @ cs @ ds" by (simp add: ab(1) bc(1))
    show "schema c = schema a" by (simp add: ab(2) bc(2))
    show "prefixes c = prefixes a" by (simp add: ab(3) bc(3))
    show "prefix (vrfs a) (vrfs c)" by (rule tr[OF ab(4) bc(4)])
    show "prefix (device_types a) (device_types c)" by (rule tr[OF ab(5) bc(5)])
    show "prefix (interface_templates a) (interface_templates c)" by (rule tr[OF ab(6) bc(6)])
    show "prefix (map nbd_data (devices a)) (map nbd_data (devices c))" by (rule tr[OF ab(7) bc(7)])
    show "prefix (interfaces a) (interfaces c)" by (rule tr[OF ab(8) bc(8)])
    show "prefix (ip_addresses a) (ip_addresses c)" by (rule tr[OF ab(9) bc(9)])
    show "vrfs c = vrfs a" if "untouched T_vrfs (cs @ ds)"
      using that ab(10) bc(10) by simp
    show "device_types c = device_types a" if "untouched T_device_types (cs @ ds)"
      using that ab(11) bc(11) by simp
    show "interface_templates c = interface_templates a" if "untouched T_interface_templates (cs @ ds)"
      using that ab(12) bc(12) by simp
    show "devices c = devices a" if "untouched T_devices (cs @ ds)"
      using that ab(13) bc(13) by simp
    show "interfaces c = interfaces a" if "untouched T_interfaces (cs @ ds)"
      using that ab(14) bc(14) by simp
    show "ip_addresses c = ip_addresses a" if "untouched T_ip_addresses (cs @ ds)"
      using that ab(15) bc(15) by simp
  qed
qed

lemma grows_refl: "grows P nb nb"
  unfolding grows_def using kept_refl by fastforce

lemma grows_trans:
  assumes "grows P a b" and "grows P b c"
  shows "grows P a c"
proof -
  from assms obtain cs ds where "kept a b cs" "\<forall>x \<in> set cs. P x" "kept b c ds" "\<forall>x \<in> set ds. P x"
    unfolding grows_def by blast
  then have "kept a c (cs @ ds)" "\<forall>x \<in> set (cs @ ds). P x"
    by (auto intro: kept_trans)
  then show ?thesis
    unfolding grows_def by blast
qed

lemma grows_mono: "grows P a b \<Longrightarrow> (\<And>c. P c \<Longrightarrow> Q c) \<Longrightarrow> grows Q a b"
  unfolding grows_def by blast

lemma kept_new_calls: "kept nb nb' cs \<Longrightarrow> new_calls nb nb' = cs"
  by (simp add: kept_def new_calls_def)

lemma grows_schema: "grows P nb nb' \<Longrightarrow> schema nb' = schema nb"
  by (auto simp: grows_def kept_def)

lemma steps_then_do:
  assumes "steps S P m" and "\<And>x. steps S P (f x)"
  shows "steps S P (then_do m f)"
  unfolding steps_def
proof (intro allI impI)
  fix nb :: netbox assume i: "S (schema nb)"
  obtain r nb1 where m: "m nb = (r, nb1)" by (cases "m nb")
  with assms(1) i have g1: "grows P nb nb1"
    by (auto simp: steps_def)
  then have i1: "S (schema nb1)" using i by (simp add: grows_schema)
  show "grows P nb (snd (then_do m f nb))"
  proof (cases r)
    case (Ok x)
    with assms(2)[of x] i1 have g2: "grows P nb1 (snd (f x nb1))"
      by (auto simp: steps_def)
    have "then_do m f nb = f x nb1"
      using m Ok by (simp add: then_do_def)
    with grows_trans[OF g1 g2] show ?thesis by simp
  next
    case Return
    with m have "then_do m f nb = (Return, nb1)" by (simp add: then_do_def)
    with g1 show ?thesis by simp
  next
    case (Raise ex)
    with m have "then_do m f nb = (Raise ex, nb1)" by (simp add: then_do_def)
    with g1 show ?thesis by simp
  qed
qed

lemma steps_mono: "steps S P m \<Longrightarrow> (\<And>c. P c \<Longrightarrow> Q c) \<Longrightarrow> steps S Q m"
  unfolding steps_def using grows_mono by blast

lemma steps_except:
  assumes "steps S P m" and "\<And>msg. steps S P (handler msg)"
  shows "steps S P (\<lambda>nb. except_request_error (m nb) handler)"
  unfolding steps_def
proof (intro allI impI)
  fix nb :: netbox assume i: "S (schema nb)"
  obtain r nb1 where m: "m nb = (r, nb1)" by (cases "m nb")
  with assms(1) i have g1: "grows P nb nb1"
    by (auto simp: steps_def)
  then have i1: "S (schema nb1)" using i by (simp add: grows_schema)
  show "grows P nb (snd (except_request_error (m nb) handler))"
  proof (cases "\<exists>msg. r = Raise (RequestError msg)")
    case True
    then obtain msg where r: "r = Raise (RequestError msg)" by blast
    from assms(2)[of msg] i1 have "grows P nb1 (snd (handler msg nb1))"
      by (auto simp: steps_def)
    with g1 have "grows P nb (snd (handler msg nb1))" by (rule grows_trans)
    then show ?thesis using m r by (simp add: except_request_error_def)
  next
    case False
    then have "except_request_error (r, nb1) handler = (r, nb1)"
      by (auto simp: except_request_error_def split: res.splits exn.splits)
    with g1 m show ?thesis by simp
  qed
qed

lemma steps_pure: "steps S P (\<lambda>nb. (r, nb))"
  by (simp add: steps_def grows_refl)

lemma kept_called: "kept nb (called r nb) [r]"
  by (simp add: kept_def called_def)

lemma grows_one: "kept nb nb' [r] \<Longrightarrow> P r \<Longrightarrow> grows P nb nb'"
  unfolding grows_def by (rule exI[of _ "[r]"]) simp

lemma steps_vrfs_get: "P (Vrfs_get n) \<Longrightarrow> steps S P (vrfs_get n)"
  by (simp add: steps_def vrfs_get_def grows_one[OF kept_called])

lemma steps_vrfs_filter: "P (Vrfs_filter n) \<Longrightarrow> steps S P (vrfs_filter n)"
  by (simp add: steps_def vrfs_filter_def grows_one[OF kept_called])

lemma steps_vrfs_create: "P (Vrfs_create n) \<Longrightarrow> steps S P (vrfs_create n)"
  unfolding steps_def vrfs_create_def Let_def
  by (intro allI impI grows_one[where r = "Vrfs_create n"]) (simp_all add: kept_def called_def)

lemma steps_device_types_get: "P (Device_types_get m u) \<Longrightarrow> steps S P (device_types_get m u)"
  by (simp add: steps_def device_types_get_def grows_one[OF kept_called])

lemma steps_device_types_create:
  "P (Device_types_create u m sl) \<Longrightarrow> steps S P (device_types_create u m sl)"
  unfolding steps_def device_types_create_def Let_def
  by (intro allI impI grows_one[where r = "Device_types_create u m sl"]) (simp_all add: kept_def called_def)

lemma steps_interface_templates_create:
  "P (Interface_templates_create t n ty) \<Longrightarrow> steps S P (interface_templates_create t n ty)"
  unfolding steps_def interface_templates_create_def Let_def
  by (intro allI impI grows_one[where r = "Interface_templates_create t n ty"])
     (simp_all add: kept_def called_def)

lemma steps_devices_get: "P (Devices_get si sr) \<Longrightarrow> steps S P (devices_get si sr)"
  by (simp add: steps_def devices_get_def grows_one[OF kept_called])

lemma steps_devices_create: "P (Devices_create x) \<Longrightarrow> steps S P (devices_create x)"
  unfolding steps_def devices_create_def Let_def
  by (intro allI impI grows_one[where r = "Devices_create x"]) (simp_all add: kept_def called_def)

lemma steps_get_postable_fields: "P (Options p) \<Longrightarrow> steps S P (get_postable_fields p)"
  unfolding steps_def get_postable_fields_def
  by (intro allI impI grows_one[where r = "Options p"])
     (simp_all add: kept_def called_def split: options_reply.splits)

lemma steps_prefixes_filter: "P (Prefixes_filter a v) \<Longrightarrow> steps S P (prefixes_filter f a v)"
  by (simp add: steps_def prefixes_filter_def grows_one[OF kept_called])

lemma steps_interfaces_get: "P (Interfaces_get d n) \<Longrightarrow> steps S P (interfaces_get d n)"
  by (simp add: steps_def interfaces_get_def grows_one[OF kept_called])

lemma steps_interfaces_create:
  "P (Interfaces_create d n ty en v) \<Longrightarrow> steps S P (interfaces_create d n ty en v)"
  unfolding steps_def interfaces_create_def Let_def
  by (intro allI impI grows_one[where r = "Interfaces_create d n ty en v"])
     (simp_all add: kept_def called_def)

lemma steps_ip_addresses_get: "P (Ip_addresses_get a v t) \<Longrightarrow> steps S P (ip_addresses_get a v t)"
  by (simp add: steps_def ip_addresses_get_def grows_one[OF kept_called])

lemma steps_ip_addresses_create: "P (Ip_addresses_create x) \<Longrightarrow> steps S P (ip_addresses_create x)"
  unfolding steps_def ip_addresses_create_def Let_def
  by (intro allI impI grows_one[where r = "Ip_addresses_create x"]) (simp_all add: kept_def called_def)

lemma steps_device_save: "P (Device_save d i) \<Longrightarrow> steps S P (device_save d i)"
  unfolding steps_def device_save_def
  by (intro allI impI grows_one[where r = "Device_save d i"])
     (simp_all add: kept_def called_def comp_def if_distrib[of nbd_data] cong: if_cong)


lemma get_one_cases:
  "(\<exists>found. get_one xs = Ok found) \<or> get_one xs = Raise (ValueError more_than_one)"
  by (auto simp: get_one_def split: list.splits)

lemma more_than_one_recognised:
  "sublist ''get() returned more than one result.'' more_than_one"
  unfolding more_than_one_def by (simp add: sublist_code)

lemma name_not_unique_recognised:
  "sublist ''Device name must be unique per site'' name_not_unique"
  unfolding name_not_unique_def by (simp add: sublist_code)

lemma steps_vrf_or_create:
  "P (Vrfs_create n) \<Longrightarrow> steps S P (vrf_or_create n found)"
  using steps_vrfs_create[of P n S]
  by (cases found) (simp_all add: steps_def vrf_or_create_def grows_refl)

lemma steps_vrf_step:
  assumes "\<And>c. phase_of c = Vrf_phase \<Longrightarrow> P c"
  shows "steps S P (vrf_step st)"
  unfolding steps_def
proof (intro allI impI)
  fix nb :: netbox assume i: "S (schema nb)"
  define n where "n = ''vrf_'' @ site_name st"
  define nb1 where "nb1 = called (Vrfs_get n) nb"
  have g1: "grows P nb nb1"
    unfolding nb1_def by (rule grows_one[OF kept_called]) (simp add: assms)
  then have i1: "S (schema nb1)" using i by (simp add: grows_schema)
  have get: "vrfs_get n nb = (get_one (filter (\<lambda>v. vrf_name v = n) (vrfs nb)), nb1)"
    by (simp add: vrfs_get_def nb1_def)
  from get_one_cases[of "filter (\<lambda>v. vrf_name v = n) (vrfs nb)"]
  show "grows P nb (snd (vrf_step st nb))"
  proof
    assume "\<exists>found. get_one (filter (\<lambda>v. vrf_name v = n) (vrfs nb)) = Ok found"
    then obtain found where "get_one (filter (\<lambda>v. vrf_name v = n) (vrfs nb)) = Ok found" ..
    with get have "vrf_step st nb = vrf_or_create n found nb1"
      by (simp add: vrf_step_def n_def Let_def)
    moreover have "grows P nb1 (snd (vrf_or_create n found nb1))"
      using steps_vrf_or_create[of P n S found] i1 assms by (simp add: steps_def)
    ultimately show ?thesis using g1 by (simp add: grows_trans)
  next
    assume "get_one (filter (\<lambda>v. vrf_name v = n) (vrfs nb)) = Raise (ValueError more_than_one)"
    with get have "vrf_step st nb =
        then_do (vrfs_filter n)
          (\<lambda>found. vrf_or_create n (case found of [] \<Rightarrow> None | vrf_item # _ \<Rightarrow> Some vrf_item)) nb1"
      by (simp add: vrf_step_def n_def more_than_one_recognised Let_def)
    moreover have "steps S P (then_do (vrfs_filter n)
          (\<lambda>found. vrf_or_create n (case found of [] \<Rightarrow> None | vrf_item # _ \<Rightarrow> Some vrf_item)))"
      by (intro steps_then_do steps_vrfs_filter steps_vrf_or_create) (simp_all add: assms)
    ultimately show ?thesis using g1 i1 by (auto simp: steps_def intro: grows_trans)
  qed
qed

lemma steps_create_templates:
  assumes "\<And>c. phase_of c = Type_phase \<Longrightarrow> P c"
  shows "steps S P (create_templates t ports)"
proof (induction ports)
  case Nil
  have "create_templates t [] = (\<lambda>nb. (Ok (), nb))" by (rule ext) simp
  then show ?case by (simp add: steps_pure)
next
  case (Cons p ports)
  show ?case
    unfolding steps_def
  proof (intro allI impI)
    fix nb :: netbox assume i: "S (schema nb)"
    show "grows P nb (snd (create_templates t (p # ports) nb))"
    proof (cases "media p")
      case None
      then show ?thesis by (simp add: grows_refl)
    next
      case (Some m)
      show ?thesis
      proof (cases "m = ''GE''")
        case False
        with Some Cons i show ?thesis by (simp add: steps_def)
      next
        case True
        show ?thesis
        proof (cases "port_name p")
          case None
          with Some True show ?thesis by (simp add: grows_refl)
        next
          case (Some nm)
          define nb1 where "nb1 = snd (interface_templates_create t nm ''1000base-t'' nb)"
          have g1: "grows P nb nb1"
            unfolding nb1_def
            using steps_interface_templates_create[of P t nm "''1000base-t''" S] i assms
            by (simp add: steps_def)
          then have i1: "S (schema nb1)" using i by (simp add: grows_schema)
          have "create_templates t (p # ports) nb = create_templates t ports nb1"
            using Some True \<open>media p = Some m\<close>
            by (simp add: nb1_def interface_templates_create_def Let_def except_request_error_def)
          moreover have "grows P nb1 (snd (create_templates t ports nb1))"
            using Cons i1 by (simp add: steps_def)
          ultimately show ?thesis using g1 by (simp add: grows_trans)
        qed
      qed
    qed
  qed
qed


lemma steps_app: "(\<And>nb. m nb = m' nb) \<Longrightarrow> steps S P m' \<Longrightarrow> steps S P m"
  by (simp add: steps_def)

lemma steps_case_option:
  "(v = None \<Longrightarrow> steps S P a) \<Longrightarrow> (\<And>x. v = Some x \<Longrightarrow> steps S P (b x)) \<Longrightarrow>
   steps S P (\<lambda>nb. case v of None \<Rightarrow> a nb | Some x \<Rightarrow> b x nb)"
  by (cases v) (simp_all add: steps_def)

lemma steps_case_list:
  "(v = [] \<Longrightarrow> steps S P a) \<Longrightarrow> (\<And>x xs. v = x # xs \<Longrightarrow> steps S P (b x xs)) \<Longrightarrow>
   steps S P (\<lambda>nb. case v of [] \<Rightarrow> a nb | x # xs \<Rightarrow> b x xs nb)"
  by (cases v) (simp_all add: steps_def)

lemma steps_if:
  "(c \<Longrightarrow> steps S P a) \<Longrightarrow> (\<not> c \<Longrightarrow> steps S P b) \<Longrightarrow>
   steps S P (\<lambda>nb. if c then a nb else b nb)"
  by (simp add: steps_def)

lemma steps_let: "steps S P (f v) \<Longrightarrow> steps S P (\<lambda>nb. let x = v in f x nb)"
  by simp

lemmas steps_ops =
  steps_vrfs_get steps_vrfs_filter steps_vrfs_create steps_device_types_get
  steps_device_types_create steps_interface_templates_create steps_devices_get
  steps_devices_create steps_get_postable_fields steps_prefixes_filter steps_interfaces_get
  steps_interfaces_create steps_ip_addresses_get steps_ip_addresses_create steps_device_save

lemmas steps_rules =
  steps_then_do steps_except steps_pure steps_case_option steps_case_list steps_if steps_let

lemma steps_device_type_step:
  assumes "\<And>c. phase_of c = Type_phase \<Longrightarrow> P c"
  shows "steps S P (device_type_step e u d)"
  apply (rule steps_app[OF device_type_step_def])
  apply (intro steps_rules steps_ops steps_create_templates)
  apply (insert assms)
  apply simp_all
  done

lemma steps_existing_device_check:
  assumes "\<And>c. phase_of c = Check_phase \<Longrightarrow> P c"
  shows "steps S P (existing_device_check st srl)"
  apply (rule steps_app[OF existing_device_check_def])
  apply (intro steps_rules steps_ops)
  apply (insert assms)
  apply simp_all
  done

lemma steps_create_with_retry:
  assumes "P (Devices_create x)" "P (Devices_create (x\<lparr>dd_name := nm @ ''_'' @ srl\<rparr>))"
  shows "steps S P (create_with_retry x nm srl)"
  apply (rule steps_app[OF create_with_retry_def])
  apply (intro steps_rules steps_ops)
  apply (insert assms)
  apply simp_all
  done

lemma steps_create_device_step:
  assumes "\<And>c. phase_of c = Create_phase \<Longrightarrow> P c"
  shows "steps S P (create_device_step st t tn r nm srl)"
  apply (rule steps_app[OF create_device_step_def])
  apply (intro steps_rules steps_ops steps_create_with_retry)
  apply (insert assms)
  apply simp_all
  done

lemma steps_attach_ip:
  assumes "\<And>c. phase_of c = Attach_phase \<Longrightarrow> P c"
  shows "steps S P (attach_ip tn v dev a)"
  apply (rule steps_app[OF attach_ip_def])
  apply (intro steps_rules steps_ops)
  apply (insert assms)
  apply simp_all
  done

lemma steps_ip_step:
  assumes "\<And>c. phase_of c = Attach_phase \<Longrightarrow> P c"
    and "\<And>a. ip d = Some a \<Longrightarrow> P (Prefixes_filter a (vrf_id v))"
  shows "steps S P (ip_step e tn d v dev)"
  apply (rule steps_app[OF ip_step_def])
  apply (intro steps_rules steps_ops steps_attach_ip)
  apply (insert assms)
  apply simp_all
  done

lemma steps_process_device_body: "steps S (\<lambda>_. True) (process_device_body e st d nm u tn)"
  apply (rule steps_app[OF process_device_body_def])
  apply (intro steps_rules steps_vrf_step steps_device_type_step steps_existing_device_check
           steps_create_device_step steps_ip_step)
  apply simp_all
  done

end
